theory Spec2Isabelle
  imports Main "HOL-Library.Char_ord" "HOL-Library.List_Lexorder"
begin

section \<open>Diagnostics\<close>

text \<open>
  The compiler never recovers from an error: \<open>error::reportError\<close> prints and calls
  \<open>exit\<close>, some places print and call \<open>exit\<close> themselves, and the standard library throws
  exceptions nobody catches (\<open>std::string::at\<close>, \<open>std::stoi\<close>).  Every such end of the
  process is a value of \<open>error\<close>, and a function that can end the process returns
  \<open>error + 'a\<close> with \<open>Inl\<close> for the abnormal end.
\<close>

datatype ErrorType = Syntax | Semantic | Codegen | Internal

datatype error =
    Reported ErrorType string   \<comment> \<open>\<open>error::reportError(type, message)\<close>, then \<open>exit\<close>\<close>
  | Exited string               \<comment> \<open>\<open>fprintf(stderr, ...)\<close>, then \<open>exit(EXIT_FAILURE)\<close>\<close>
  | OutOfRange                  \<comment> \<open>\<open>std::out_of_range\<close>, thrown and never caught\<close>
  | InvalidArgument             \<comment> \<open>\<open>std::invalid_argument\<close>, thrown and never caught\<close>
  | UndefinedBehaviour string   \<comment> \<open>a null pointer is dereferenced or an LLVM assertion fails\<close>
  | OutOfFuel                   \<comment> \<open>no outcome of the program: a loop bound of the model was reached\<close>

text \<open>A name between single quotes, as the messages show it.\<close>

definition quoted :: "string \<Rightarrow> string" where
  "quoted s = [CHR 0x27] @ s @ [CHR 0x27]"

section \<open>Lexer\<close>

subsection \<open>Tokens\<close>

text \<open>
  The scoped enumeration \<open>lexer::TokenType\<close>; the enumerator \<open>TokenType::X\<close> is written
  \<open>TokX\<close>, because several enumerators share their names with AST classes.
\<close>

datatype TokenType =
    TokIntLit | TokFloatLit | TokStringLit
  | TokReturn | TokBreak | TokContinue | TokIf | TokWhile | TokElse | TokPtr
  | TokImport | TokClass | TokTypedef
  | TokLParen | TokRParen | TokLBrace | TokRBrace | TokLBracket | TokRBracket
  | TokPeriod | TokComma | TokSemi | TokAmpersand | TokDollar | TokPercent
  | TokPlus | TokMinus | TokAsterisk | TokSlash | TokEquals | TokLess | TokGreater
  | TokIdentifier | TokEndOfFile

definition keywordList :: "(string \<times> TokenType) list" where
  "keywordList =
     [(''return'', TokReturn), (''break'', TokBreak), (''continue'', TokContinue),
      (''if'', TokIf), (''else'', TokElse), (''while'', TokWhile),
      (''ptr'', TokPtr), (''import'', TokImport), (''class'', TokClass),
      (''typedef'', TokTypedef)]"

definition symbolList :: "(char \<times> TokenType) list" where
  "symbolList =
     [(CHR ''('', TokLParen), (CHR '')'', TokRParen), (CHR ''{'', TokLBrace), (CHR ''}'', TokRBrace),
      (CHR ''['', TokLBracket), (CHR '']'', TokRBracket), (CHR ''.'', TokPeriod), (CHR '','', TokComma),
      (CHR ''+'', TokPlus), (CHR ''-'', TokMinus), (CHR ''*'', TokAsterisk), (CHR ''/'', TokSlash),
      (CHR ''='', TokEquals), (CHR ''<'', TokLess), (CHR ''>'', TokGreater), (CHR '';'', TokSemi),
      (CHR ''&'', TokAmpersand), (CHR ''$'', TokDollar), (CHR ''%'', TokPercent)]"

definition keywordMap :: "string \<Rightarrow> TokenType option" where
  "keywordMap = map_of keywordList"

definition symbolMap :: "char \<Rightarrow> TokenType option" where
  "symbolMap = map_of symbolList"

text \<open>The reversed tables: no two keys of a table share a token type.\<close>

definition tokenToKeyword :: "TokenType \<Rightarrow> string option" where
  "tokenToKeyword = map_of (map (\<lambda>(key, val). (val, key)) keywordList)"

definition tokenToSymbol :: "TokenType \<Rightarrow> char option" where
  "tokenToSymbol = map_of (map (\<lambda>(key, val). (val, key)) symbolList)"

record Token =
  type :: TokenType
  src :: string
  row :: int
  col :: int

subsection \<open>The lexer object and its saved state\<close>

text \<open>
  The data members of \<open>class Lexer\<close>.  A member the source writes with a trailing
  underscore (\<open>srcCursor_\<close>) is written with a prime (\<open>srcCursor'\<close>).  \<open>src_\<close> is declared
  \<open>const\<close>; \<open>row_\<close> and \<open>col_\<close> are C++ \<open>int\<close>s that only count up from 1.
\<close>

record Lexer =
  src' :: string
  srcCursor' :: nat
  lookAhead' :: "Token list"
  tokensCursor' :: nat
  row' :: int
  col' :: int

text \<open>\<open>struct LexerState\<close>; its fields \<open>row\<close> and \<open>col\<close> are written \<open>srow\<close> and \<open>scol\<close>.\<close>

record LexerState =
  srcCursor :: nat
  lookAhead :: "Token list"
  tokensCursor :: nat
  srow :: int
  scol :: int

text \<open>The constructor \<open>Lexer::Lexer(std::string src)\<close> with the default member initialisers.\<close>

definition Lexer_new :: "string \<Rightarrow> Lexer" where
  "Lexer_new s = \<lparr>src' = s, srcCursor' = 0, lookAhead' = [], tokensCursor' = 0, row' = 1, col' = 1\<rparr>"

definition saveState :: "Lexer \<Rightarrow> LexerState" where
  "saveState L = \<lparr>srcCursor = srcCursor' L, lookAhead = lookAhead' L,
                  tokensCursor = tokensCursor' L, srow = row' L, scol = col' L\<rparr>"

definition restoreState :: "LexerState \<Rightarrow> Lexer \<Rightarrow> Lexer" where
  "restoreState state L =
     L\<lparr>srcCursor' := srcCursor state, lookAhead' := lookAhead state,
       tokensCursor' := tokensCursor state, row' := srow state, col' := scol state\<rparr>"

subsection \<open>Characters\<close>

text \<open>
  \<open>std::string::at\<close> throws \<open>std::out_of_range\<close> for an index that is not below the
  size; \<open>substr(pos)\<close> throws only for \<open>pos > size()\<close>.
\<close>

definition at :: "string \<Rightarrow> nat \<Rightarrow> error + char" where
  "at s i = (if i < length s then Inr (s ! i) else Inl OutOfRange)"

definition substr :: "string \<Rightarrow> nat \<Rightarrow> error + string" where
  "substr s pos = (if pos \<le> length s then Inr (drop pos s) else Inl OutOfRange)"

definition substr_n :: "string \<Rightarrow> nat \<Rightarrow> nat \<Rightarrow> error + string" where
  "substr_n s pos n = (if pos \<le> length s then Inr (take n (drop pos s)) else Inl OutOfRange)"

text \<open>
  The \<open><cctype>\<close> classifiers in the "C" locale.  A byte above 127 is in none of the
  classes.
\<close>

definition isspace :: "char \<Rightarrow> bool" where
  "isspace c = (c = CHR '' '' \<or> (CHR 0x09 \<le> c \<and> c \<le> CHR 0x0D))"

definition isdigit :: "char \<Rightarrow> bool" where
  "isdigit c = (CHR ''0'' \<le> c \<and> c \<le> CHR ''9'')"

definition isalpha :: "char \<Rightarrow> bool" where
  "isalpha c = ((CHR ''a'' \<le> c \<and> c \<le> CHR ''z'') \<or> (CHR ''A'' \<le> c \<and> c \<le> CHR ''Z''))"

definition isalnum :: "char \<Rightarrow> bool" where
  "isalnum c = (isalpha c \<or> isdigit c)"

definition peekChar :: "Lexer \<Rightarrow> nat \<Rightarrow> error + char" where
  "peekChar L offset = at (src' L) (srcCursor' L + offset)"

definition consumeChar :: "Lexer \<Rightarrow> error + (char \<times> Lexer)" where
  "consumeChar L =
     (case peekChar L 0 of
        Inl e \<Rightarrow> Inl e
      | Inr c \<Rightarrow>
          let L1 = (if c = CHR 0x0A then L\<lparr>row' := row' L + 1, col' := 1\<rparr>
                    else L\<lparr>col' := col' L + 1\<rparr>)
          in (case at (src' L1) (srcCursor' L1) of
                Inl e \<Rightarrow> Inl e
              | Inr r \<Rightarrow> Inr (r, L1\<lparr>srcCursor' := srcCursor' L1 + 1\<rparr>)))"

lemma consumeChar_InrD:
  assumes "consumeChar L = Inr (c, L1)"
  shows "srcCursor' L < length (src' L)" and "srcCursor' L1 = Suc (srcCursor' L)"
    and "src' L1 = src' L" and "lookAhead' L1 = lookAhead' L"
    and "tokensCursor' L1 = tokensCursor' L" and "c = src' L ! srcCursor' L"
  using assms
  by (auto simp: consumeChar_def peekChar_def at_def Let_def split: if_splits)

lemma consumeChar_measure:
  "consumeChar L = Inr (c, L1) \<Longrightarrow> length (src' L1) - srcCursor' L1 < length (src' L) - srcCursor' L"
  by (auto simp: consumeChar_def peekChar_def at_def Let_def split: if_splits)

subsection \<open>The scanning loops of \<open>Lexer::nextToken\<close>\<close>

text \<open>
  \<open>while (srcCursor_ < src_.size() && peekChar() != '\n') consumeChar();\<close>
  (the rest of a line comment).
\<close>

function skipLineComment :: "Lexer \<Rightarrow> error + Lexer" where
  "skipLineComment L =
     (if srcCursor' L < length (src' L) then
        (case peekChar L 0 of
           Inl e \<Rightarrow> Inl e
         | Inr c \<Rightarrow>
             if c \<noteq> CHR 0x0A then
               (case consumeChar L of Inl e \<Rightarrow> Inl e | Inr (_, L1) \<Rightarrow> skipLineComment L1)
             else Inr L)
      else Inr L)"
  by pat_completeness auto
termination
  by (relation "measure (\<lambda>L. length (src' L) - srcCursor' L)")
     (auto dest!: consumeChar_measure)

text \<open>
  The body of a block comment:
  \<open>while (srcCursor_ + 1 < src_.size()) { if (peekChar() == '*' && peekChar(1) == '/')
  { consumeChar(); consumeChar(); break; } consumeChar(); }\<close>
\<close>

function skipBlockComment :: "Lexer \<Rightarrow> error + Lexer" where
  "skipBlockComment L =
     (if srcCursor' L + 1 < length (src' L) then
        (case peekChar L 0 of
           Inl e \<Rightarrow> Inl e
         | Inr c \<Rightarrow>
             (case (if c = CHR ''*'' then peekChar L 1 else Inr c) of
                Inl e \<Rightarrow> Inl e
              | Inr d \<Rightarrow>
                  if c = CHR ''*'' \<and> d = CHR ''/'' then
                    (case consumeChar L of
                       Inl e \<Rightarrow> Inl e
                     | Inr (_, L1) \<Rightarrow>
                         (case consumeChar L1 of Inl e \<Rightarrow> Inl e | Inr (_, L2) \<Rightarrow> Inr L2))
                  else
                    (case consumeChar L of Inl e \<Rightarrow> Inl e | Inr (_, L1) \<Rightarrow> skipBlockComment L1)))
      else Inr L)"
  by pat_completeness auto
termination
  by (relation "measure (\<lambda>L. length (src' L) - srcCursor' L)")
     (auto dest!: consumeChar_measure)

text \<open>
  \<open>while (srcCursor_ < src_.length() && std::isdigit(peekChar())) newIntLiteral +=
  consumeChar();\<close> (the integer part of a number).
\<close>

function scanDigits :: "Lexer \<Rightarrow> string \<Rightarrow> error + (string \<times> Lexer)" where
  "scanDigits L newIntLiteral =
     (if srcCursor' L < length (src' L) then
        (case peekChar L 0 of
           Inl e \<Rightarrow> Inl e
         | Inr c \<Rightarrow>
             if isdigit c then
               (case consumeChar L of
                  Inl e \<Rightarrow> Inl e
                | Inr (r, L1) \<Rightarrow> scanDigits L1 (newIntLiteral @ [r]))
             else Inr (newIntLiteral, L))
      else Inr (newIntLiteral, L))"
  by pat_completeness auto
termination
  by (relation "measure (\<lambda>(L, s). length (src' L) - srcCursor' L)")
     (auto dest!: consumeChar_measure)

text \<open>
  The digits after the point; every digit consumed sets the token type to \<open>FloatLit\<close>:
  \<open>while (srcCursor_ < src_.length() && std::isdigit(peekChar())) { newIntLiteral +=
  consumeChar(); newToken.type = TokenType::FloatLit; }\<close>
\<close>

function scanFraction :: "Lexer \<Rightarrow> string \<Rightarrow> TokenType \<Rightarrow> error + (string \<times> TokenType \<times> Lexer)" where
  "scanFraction L newIntLiteral ty =
     (if srcCursor' L < length (src' L) then
        (case peekChar L 0 of
           Inl e \<Rightarrow> Inl e
         | Inr c \<Rightarrow>
             if isdigit c then
               (case consumeChar L of
                  Inl e \<Rightarrow> Inl e
                | Inr (r, L1) \<Rightarrow> scanFraction L1 (newIntLiteral @ [r]) TokFloatLit)
             else Inr (newIntLiteral, ty, L))
      else Inr (newIntLiteral, ty, L))"
  by pat_completeness auto
termination
  by (relation "measure (\<lambda>(L, s, t). length (src' L) - srcCursor' L)")
     (auto dest!: consumeChar_measure)

text \<open>
  The content of a string literal, up to the closing quote or the end of the source.  A
  backslash that is not the last character takes the next character with it; \<open>n\<close>, \<open>t\<close>,
  the quote and the backslash are translated, any other character stands for itself.
\<close>

definition unescape :: "char \<Rightarrow> char" where
  "unescape escaped =
     (if escaped = CHR ''n'' then CHR 0x0A
      else if escaped = CHR ''t'' then CHR 0x09
      else if escaped = CHR 0x22 then CHR 0x22
      else if escaped = CHR 0x5C then CHR 0x5C
      else escaped)"

function scanString :: "Lexer \<Rightarrow> string \<Rightarrow> error + (string \<times> Lexer)" where
  "scanString L stringContent =
     (if srcCursor' L < length (src' L) then
        (case peekChar L 0 of
           Inl e \<Rightarrow> Inl e
         | Inr c \<Rightarrow>
             if c \<noteq> CHR 0x22 then
               (if c = CHR 0x5C \<and> srcCursor' L + 1 < length (src' L) then
                  (case consumeChar L of
                     Inl e \<Rightarrow> Inl e
                   | Inr (_, L1) \<Rightarrow>
                       (case consumeChar L1 of
                          Inl e \<Rightarrow> Inl e
                        | Inr (escaped, L2) \<Rightarrow> scanString L2 (stringContent @ [unescape escaped])))
                else
                  (case consumeChar L of
                     Inl e \<Rightarrow> Inl e
                   | Inr (r, L1) \<Rightarrow> scanString L1 (stringContent @ [r])))
             else Inr (stringContent, L))
      else Inr (stringContent, L))"
  by pat_completeness auto
termination
  by (relation "measure (\<lambda>(L, s). length (src' L) - srcCursor' L)")
     (auto dest!: consumeChar_measure)

text \<open>
  \<open>while (srcCursor_ < src_.length() && (std::isalnum(peekChar()) || peekChar() == '_'))
  newKeyword += consumeChar();\<close>
\<close>

function scanWord :: "Lexer \<Rightarrow> string \<Rightarrow> error + (string \<times> Lexer)" where
  "scanWord L newKeyword =
     (if srcCursor' L < length (src' L) then
        (case peekChar L 0 of
           Inl e \<Rightarrow> Inl e
         | Inr c \<Rightarrow>
             if isalnum c \<or> c = CHR ''_'' then
               (case consumeChar L of
                  Inl e \<Rightarrow> Inl e
                | Inr (r, L1) \<Rightarrow> scanWord L1 (newKeyword @ [r]))
             else Inr (newKeyword, L))
      else Inr (newKeyword, L))"
  by pat_completeness auto
termination
  by (relation "measure (\<lambda>(L, s). length (src' L) - srcCursor' L)")
     (auto dest!: consumeChar_measure)

subsection \<open>What the scanning loops leave alone\<close>

text \<open>
  A scanning loop only moves the source cursor forward and counts rows and columns: the
  source text, the look-ahead deque and the token cursor stay as they are.
\<close>

definition scans_to :: "Lexer \<Rightarrow> Lexer \<Rightarrow> bool" where
  "scans_to L L1 \<longleftrightarrow>
     src' L1 = src' L \<and> lookAhead' L1 = lookAhead' L \<and> tokensCursor' L1 = tokensCursor' L \<and>
     length (src' L1) - srcCursor' L1 \<le> length (src' L) - srcCursor' L"

lemma scans_to_refl: "scans_to L L"
  by (simp add: scans_to_def)

lemma scans_to_trans: "scans_to L L1 \<Longrightarrow> scans_to L1 L2 \<Longrightarrow> scans_to L L2"
  by (auto simp: scans_to_def)

lemma consumeChar_scans_to: "consumeChar L = Inr (c, L1) \<Longrightarrow> scans_to L L1"
  by (auto simp: scans_to_def consumeChar_def peekChar_def at_def Let_def split: if_splits)

declare skipLineComment.simps [simp del] skipBlockComment.simps [simp del]
  scanDigits.simps [simp del] scanFraction.simps [simp del]
  scanString.simps [simp del] scanWord.simps [simp del]

lemma skipLineComment_scans_to: "skipLineComment L = Inr L1 \<Longrightarrow> scans_to L L1"
proof (induction L rule: skipLineComment.induct)
  case (1 L)
  show ?case
  proof (cases "srcCursor' L < length (src' L) \<and> peekChar L 0 \<noteq> Inr (CHR 0x0A)")
    case False
    with "1.prems" have "L1 = L"
      by (subst (asm) skipLineComment.simps) (auto split: sum.splits if_splits)
    then show ?thesis by (simp add: scans_to_refl)
  next
    case True
    with "1.prems" obtain c r L2 where
      c: "peekChar L 0 = Inr c" "c \<noteq> CHR 0x0A" and cc: "consumeChar L = Inr (r, L2)"
      and rest: "skipLineComment L2 = Inr L1"
      by (subst (asm) skipLineComment.simps) (auto split: sum.splits if_splits)
    from True c cc rest have "scans_to L2 L1"
      by (intro "1.IH") auto
    with consumeChar_scans_to [OF cc] show ?thesis
      by (rule scans_to_trans)
  qed
qed

lemma skipBlockComment_scans_to: "skipBlockComment L = Inr L1 \<Longrightarrow> scans_to L L1"
proof (induction L rule: skipBlockComment.induct)
  case (1 L)
  show ?case
  proof (cases "srcCursor' L + 1 < length (src' L)")
    case False
    with "1.prems" have "L1 = L"
      by (subst (asm) skipBlockComment.simps) simp
    then show ?thesis by (simp add: scans_to_refl)
  next
    case inside: True
    then obtain c where c: "peekChar L 0 = Inr c"
      by (auto simp: peekChar_def at_def)
    from inside obtain d where d: "(if c = CHR ''*'' then peekChar L 1 else Inr c) = Inr d"
      by (cases "c = CHR ''*''") (auto simp: peekChar_def at_def)
    show ?thesis
    proof (cases "c = CHR ''*'' \<and> d = CHR ''/''")
      case True
      with "1.prems" inside c d obtain r1 r2 L2 where
        "consumeChar L = Inr (r1, L2)" "consumeChar L2 = Inr (r2, L1)"
        by (subst (asm) skipBlockComment.simps) (auto split: sum.splits if_splits)
      then show ?thesis
        by (blast intro: scans_to_trans consumeChar_scans_to)
    next
      case False
      with "1.prems" inside c d obtain r L2 where
        cc: "consumeChar L = Inr (r, L2)" and rest: "skipBlockComment L2 = Inr L1"
        by (subst (asm) skipBlockComment.simps) (auto split: sum.splits if_splits)
      from inside c d False cc rest have "scans_to L2 L1"
        by (intro "1.IH") auto
      with consumeChar_scans_to [OF cc] show ?thesis
        by (rule scans_to_trans)
    qed
  qed
qed

lemma scanDigits_scans_to: "scanDigits L s = Inr (s1, L1) \<Longrightarrow> scans_to L L1"
proof (induction L s rule: scanDigits.induct)
  case (1 L s)
  show ?case
  proof (cases "srcCursor' L < length (src' L) \<and> isdigit (src' L ! srcCursor' L)")
    case False
    with "1.prems" have "L1 = L"
      by (subst (asm) scanDigits.simps) (auto simp: peekChar_def at_def split: if_splits)
    then show ?thesis by (simp add: scans_to_refl)
  next
    case True
    with "1.prems" obtain r L2 where
      cc: "consumeChar L = Inr (r, L2)" and rest: "scanDigits L2 (s @ [r]) = Inr (s1, L1)"
      by (subst (asm) scanDigits.simps) (auto simp: peekChar_def at_def split: sum.splits if_splits)
    from True cc rest have "scans_to L2 L1"
      by (intro "1.IH") (auto simp: peekChar_def at_def)
    with consumeChar_scans_to [OF cc] show ?thesis
      by (rule scans_to_trans)
  qed
qed

lemma scanFraction_scans_to: "scanFraction L s ty = Inr (s1, ty1, L1) \<Longrightarrow> scans_to L L1"
proof (induction L s ty rule: scanFraction.induct)
  case (1 L s ty)
  show ?case
  proof (cases "srcCursor' L < length (src' L) \<and> isdigit (src' L ! srcCursor' L)")
    case False
    with "1.prems" have "L1 = L"
      by (subst (asm) scanFraction.simps) (auto simp: peekChar_def at_def split: if_splits)
    then show ?thesis by (simp add: scans_to_refl)
  next
    case True
    with "1.prems" obtain r L2 where
      cc: "consumeChar L = Inr (r, L2)"
      and rest: "scanFraction L2 (s @ [r]) TokFloatLit = Inr (s1, ty1, L1)"
      by (subst (asm) scanFraction.simps) (auto simp: peekChar_def at_def split: sum.splits if_splits)
    from True cc rest have "scans_to L2 L1"
      by (intro "1.IH") (auto simp: peekChar_def at_def)
    with consumeChar_scans_to [OF cc] show ?thesis
      by (rule scans_to_trans)
  qed
qed

lemma scanWord_scans_to: "scanWord L s = Inr (s1, L1) \<Longrightarrow> scans_to L L1"
proof (induction L s rule: scanWord.induct)
  case (1 L s)
  show ?case
  proof (cases "srcCursor' L < length (src' L) \<and>
                (isalnum (src' L ! srcCursor' L) \<or> src' L ! srcCursor' L = CHR ''_'')")
    case False
    with "1.prems" have "L1 = L"
      by (subst (asm) scanWord.simps) (auto simp: peekChar_def at_def split: if_splits)
    then show ?thesis by (simp add: scans_to_refl)
  next
    case True
    with "1.prems" obtain r L2 where
      cc: "consumeChar L = Inr (r, L2)" and rest: "scanWord L2 (s @ [r]) = Inr (s1, L1)"
      by (subst (asm) scanWord.simps) (auto simp: peekChar_def at_def split: sum.splits if_splits)
    from True cc rest have "scans_to L2 L1"
      by (intro "1.IH") (auto simp: peekChar_def at_def)
    with consumeChar_scans_to [OF cc] show ?thesis
      by (rule scans_to_trans)
  qed
qed

lemma scanString_scans_to: "scanString L s = Inr (s1, L1) \<Longrightarrow> scans_to L L1"
proof (induction L s rule: scanString.induct)
  case (1 L s)
  show ?case
  proof (cases "srcCursor' L < length (src' L) \<and> src' L ! srcCursor' L \<noteq> CHR 0x22")
    case False
    with "1.prems" have "L1 = L"
      by (subst (asm) scanString.simps) (auto simp: peekChar_def at_def split: if_splits)
    then show ?thesis by (simp add: scans_to_refl)
  next
    case inside: True
    show ?thesis
    proof (cases "src' L ! srcCursor' L = CHR 0x5C \<and> srcCursor' L + 1 < length (src' L)")
      case True
      with "1.prems" inside obtain r1 L2 escaped L3 where
        cc: "consumeChar L = Inr (r1, L2)" and cc2: "consumeChar L2 = Inr (escaped, L3)"
        and rest: "scanString L3 (s @ [unescape escaped]) = Inr (s1, L1)"
        by (subst (asm) scanString.simps) (auto simp: peekChar_def at_def split: sum.splits if_splits)
      from inside True cc cc2 rest have "scans_to L3 L1"
        by (intro "1.IH"(1)) (auto simp: peekChar_def at_def)
      with consumeChar_scans_to [OF cc] consumeChar_scans_to [OF cc2] show ?thesis
        by (blast intro: scans_to_trans)
    next
      case False
      with "1.prems" inside obtain r L2 where
        cc: "consumeChar L = Inr (r, L2)" and rest: "scanString L2 (s @ [r]) = Inr (s1, L1)"
        by (subst (asm) scanString.simps) (auto simp: peekChar_def at_def split: sum.splits if_splits)
      from inside False cc rest have "scans_to L2 L1"
        by (intro "1.IH"(2)) (auto simp: peekChar_def at_def)
      with consumeChar_scans_to [OF cc] show ?thesis
        by (rule scans_to_trans)
    qed
  qed
qed

subsection \<open>\<open>Lexer::nextToken\<close>\<close>

text \<open>
  The three literal scanners are the bodies of the corresponding \<open>if\<close> blocks of
  \<open>nextToken\<close>; each receives \<open>newToken\<close>, which already holds the row and column of
  the token's first character.

  A number: the digits, then one look at the next character for a decimal point.  That
  look is \<open>peekChar()\<close> without a bound check, as in the source.
\<close>

definition scanNumber :: "Lexer \<Rightarrow> Token \<Rightarrow> error + (Token \<times> Lexer)" where
  "scanNumber L newToken =
     (case scanDigits L [] of
        Inl e \<Rightarrow> Inl e
      | Inr (newIntLiteral, L1) \<Rightarrow>
          (case peekChar L1 0 of
             Inl e \<Rightarrow> Inl e
           | Inr c \<Rightarrow>
               if c = CHR ''.'' then
                 (case consumeChar L1 of
                    Inl e \<Rightarrow> Inl e
                  | Inr (r, L2) \<Rightarrow>
                      (case scanFraction L2 (newIntLiteral @ [r]) TokIntLit of
                         Inl e \<Rightarrow> Inl e
                       | Inr (lit, ty, L3) \<Rightarrow> Inr (newToken\<lparr>type := ty, src := lit\<rparr>, L3)))
               else Inr (newToken\<lparr>type := TokIntLit, src := newIntLiteral\<rparr>, L1)))"

definition scanStringLit :: "Lexer \<Rightarrow> Token \<Rightarrow> error + (Token \<times> Lexer)" where
  "scanStringLit L newToken =
     (case consumeChar L of
        Inl e \<Rightarrow> Inl e
      | Inr (_, L1) \<Rightarrow>
          (case scanString L1 [] of
             Inl e \<Rightarrow> Inl e
           | Inr (stringContent, L2) \<Rightarrow>
               if srcCursor' L2 \<ge> length (src' L2) then
                 Inl (Exited ''Unterminated string literal.'')
               else
                 (case consumeChar L2 of
                    Inl e \<Rightarrow> Inl e
                  | Inr (_, L3) \<Rightarrow>
                      Inr (newToken\<lparr>type := TokStringLit, src := stringContent\<rparr>, L3))))"

definition scanKeyword :: "Lexer \<Rightarrow> Token \<Rightarrow> error + (Token \<times> Lexer)" where
  "scanKeyword L newToken =
     (case scanWord L [] of
        Inl e \<Rightarrow> Inl e
      | Inr (newKeyword, L1) \<Rightarrow>
          Inr (newToken\<lparr>type := (case keywordMap newKeyword of Some t \<Rightarrow> t | None \<Rightarrow> TokIdentifier),
                         src := newKeyword\<rparr>, L1))"

text \<open>
  The part of the loop body of \<open>nextToken\<close> after white space and comments: it always
  returns a token or ends the process.
\<close>

definition scanToken :: "Lexer \<Rightarrow> error + (Token \<times> Lexer)" where
  "scanToken L =
     (case substr_n (src' L) (srcCursor' L) 1 of
        Inl e \<Rightarrow> Inl e
      | Inr s \<Rightarrow>
          (case peekChar L 0 of
             Inl e \<Rightarrow> Inl e
           | Inr c \<Rightarrow>
               let newToken0 = \<lparr>type = TokEndOfFile, src = s, row = row' L, col = col' L\<rparr>;
                   newToken = (case symbolMap c of
                                 Some t \<Rightarrow> newToken0\<lparr>type := t\<rparr>
                               | None \<Rightarrow> newToken0)
               in if type newToken \<noteq> TokEndOfFile then
                    (case consumeChar L of Inl e \<Rightarrow> Inl e | Inr (_, L1) \<Rightarrow> Inr (newToken, L1))
                  else if isdigit c then scanNumber L newToken
                  else if c = CHR 0x22 then scanStringLit L newToken
                  else if isalpha c \<or> c = CHR ''_'' then scanKeyword L newToken
                  else Inl (Exited (''Invalid character found during lexing: '' @ [c]))))"

text \<open>
  \<open>nextToken\<close> itself: the \<open>while (srcCursor_ < src_.size())\<close> loop, whose \<open>continue\<close>
  statements (after white space, a line comment, a block comment) are the recursive
  calls.  At the end of the source it returns the \<open>EndOfFile\<close> token, whose \<open>row\<close> and
  \<open>col\<close> are left out of the initialiser and so are 0.
\<close>

function nextToken :: "Lexer \<Rightarrow> error + (Token \<times> Lexer)" where
  "nextToken L =
     (if srcCursor' L < length (src' L) then
        (case peekChar L 0 of
           Inl e \<Rightarrow> Inl e
         | Inr c \<Rightarrow>
             if c = CHR 0x0A \<or> isspace c then
               (case consumeChar L of Inl e \<Rightarrow> Inl e | Inr (_, L1) \<Rightarrow> nextToken L1)
             else if c = CHR ''/'' \<and> srcCursor' L + 1 < length (src' L) then
               (case peekChar L 1 of
                  Inl e \<Rightarrow> Inl e
                | Inr d \<Rightarrow>
                    if d = CHR ''/'' then
                      (case consumeChar L of
                         Inl e \<Rightarrow> Inl e
                       | Inr (_, L1) \<Rightarrow>
                           (case consumeChar L1 of
                              Inl e \<Rightarrow> Inl e
                            | Inr (_, L2) \<Rightarrow>
                                (case skipLineComment L2 of
                                   Inl e \<Rightarrow> Inl e
                                 | Inr L3 \<Rightarrow> nextToken L3)))
                    else if d = CHR ''*'' then
                      (case consumeChar L of
                         Inl e \<Rightarrow> Inl e
                       | Inr (_, L1) \<Rightarrow>
                           (case consumeChar L1 of
                              Inl e \<Rightarrow> Inl e
                            | Inr (_, L2) \<Rightarrow>
                                (case skipBlockComment L2 of
                                   Inl e \<Rightarrow> Inl e
                                 | Inr L3 \<Rightarrow> nextToken L3)))
                    else scanToken L)
             else scanToken L)
      else
        (case substr (src' L) (srcCursor' L) of
           Inl e \<Rightarrow> Inl e
         | Inr s \<Rightarrow> Inr (\<lparr>type = TokEndOfFile, src = s, row = 0, col = 0\<rparr>, L)))"
  by pat_completeness auto
termination
proof (relation "measure (\<lambda>L. length (src' L) - srcCursor' L)", goal_cases)
  case 1
  show ?case by simp
next
  case (2 L c x r L1)
  then show ?case by (auto dest!: consumeChar_measure)
next
  case (3 L c d x1 r1 L1 x2 r2 L2 L3)
  then have "consumeChar L = Inr (r1, L1)" "consumeChar L1 = Inr (r2, L2)" "skipLineComment L2 = Inr L3"
    by auto
  then show ?case
    by (auto dest!: consumeChar_measure skipLineComment_scans_to simp: scans_to_def)
next
  case (4 L c d x1 r1 L1 x2 r2 L2 L3)
  then have "consumeChar L = Inr (r1, L1)" "consumeChar L1 = Inr (r2, L2)" "skipBlockComment L2 = Inr L3"
    by auto
  then show ?case
    by (auto dest!: consumeChar_measure skipBlockComment_scans_to simp: scans_to_def)
qed

declare nextToken.simps [simp del]


lemma scanToken_scans_to: "scanToken L = Inr (t, L1) \<Longrightarrow> scans_to L L1"
  unfolding scanToken_def scanNumber_def scanStringLit_def scanKeyword_def Let_def
  by (auto split: sum.splits if_splits prod.splits
           dest!: consumeChar_scans_to scanDigits_scans_to scanFraction_scans_to
                  scanString_scans_to scanWord_scans_to
           simp: scans_to_def)

lemma nextToken_scans_to: "nextToken L = Inr (t, L1) \<Longrightarrow> scans_to L L1"
proof (induction L rule: nextToken.induct)
  case (1 L)
  show ?case
  proof (cases "srcCursor' L < length (src' L)")
    case False
    with "1.prems" have "L1 = L"
      by (subst (asm) nextToken.simps) (auto split: sum.splits)
    then show ?thesis by (simp add: scans_to_refl)
  next
    case inside: True
    then have c: "peekChar L 0 = Inr (src' L ! srcCursor' L)"
      by (simp add: peekChar_def at_def)
    define c where "c = src' L ! srcCursor' L"
    define d where "d = src' L ! (srcCursor' L + 1)"
    have fallthrough: "nextToken L = scanToken L"
      if "\<not> (c = CHR 0x0A \<or> isspace c)"
        and "\<not> (c = CHR ''/'' \<and> srcCursor' L + 1 < length (src' L) \<and> (d = CHR ''/'' \<or> d = CHR ''*''))"
      using that inside
      by (subst nextToken.simps) (auto simp: c_def d_def peekChar_def at_def)
    consider (space) "c = CHR 0x0A \<or> isspace c"
      | (line) "\<not> (c = CHR 0x0A \<or> isspace c)" "c = CHR ''/''" "srcCursor' L + 1 < length (src' L)"
          "d = CHR ''/''"
      | (block) "\<not> (c = CHR 0x0A \<or> isspace c)" "c = CHR ''/''" "srcCursor' L + 1 < length (src' L)"
          "d \<noteq> CHR ''/''" "d = CHR ''*''"
      | (token) "nextToken L = scanToken L"
      using fallthrough by blast
    then show ?thesis
    proof cases
      case space
      with "1.prems" inside c obtain r L2 where
        cc: "consumeChar L = Inr (r, L2)" and rest: "nextToken L2 = Inr (t, L1)"
        by (subst (asm) nextToken.simps) (auto simp: c_def split: sum.splits)
      from inside c space cc rest have "scans_to L2 L1"
        by (intro "1.IH"(1)) (auto simp: c_def)
      with consumeChar_scans_to [OF cc] show ?thesis
        by (rule scans_to_trans)
    next
      case line
      from line(3) have d: "peekChar L 1 = Inr d"
        by (simp add: d_def peekChar_def at_def)
      with "1.prems" inside c line obtain r1 L2 r2 L3 L4 where
        cc: "consumeChar L = Inr (r1, L2)" and cc2: "consumeChar L2 = Inr (r2, L3)"
        and sk: "skipLineComment L3 = Inr L4" and rest: "nextToken L4 = Inr (t, L1)"
        by (subst (asm) nextToken.simps) (auto simp: c_def split: sum.splits)
      from inside c d line cc cc2 sk rest have "scans_to L4 L1"
        by (intro "1.IH"(2)) (auto simp: c_def)
      with consumeChar_scans_to [OF cc] consumeChar_scans_to [OF cc2]
        skipLineComment_scans_to [OF sk] show ?thesis
        by (blast intro: scans_to_trans)
    next
      case block
      from block(3) have d: "peekChar L 1 = Inr d"
        by (simp add: d_def peekChar_def at_def)
      with "1.prems" inside c block obtain r1 L2 r2 L3 L4 where
        cc: "consumeChar L = Inr (r1, L2)" and cc2: "consumeChar L2 = Inr (r2, L3)"
        and sk: "skipBlockComment L3 = Inr L4" and rest: "nextToken L4 = Inr (t, L1)"
        by (subst (asm) nextToken.simps) (auto simp: c_def split: sum.splits)
      from inside c d block cc cc2 sk rest have "scans_to L4 L1"
        by (intro "1.IH"(3)) (auto simp: c_def)
      with consumeChar_scans_to [OF cc] consumeChar_scans_to [OF cc2]
        skipBlockComment_scans_to [OF sk] show ?thesis
        by (blast intro: scans_to_trans)
    next
      case token
      with "1.prems" show ?thesis
        by (simp add: scanToken_scans_to)
    qed
  qed
qed

subsection \<open>\<open>peek\<close>, \<open>peekT\<close> and \<open>consume\<close>\<close>

text \<open>
  \<open>while (lookAhead_.size() <= offset) lookAhead_.push_back(nextToken());
  return lookAhead_[offset];\<close>
\<close>

function peek :: "Lexer \<Rightarrow> nat \<Rightarrow> error + (Token \<times> Lexer)" where
  "peek L offset =
     (if length (lookAhead' L) \<le> offset then
        (case nextToken L of
           Inl e \<Rightarrow> Inl e
         | Inr (t, L1) \<Rightarrow> peek (L1\<lparr>lookAhead' := lookAhead' L1 @ [t]\<rparr>) offset)
      else Inr (lookAhead' L ! offset, L))"
  by pat_completeness auto
termination
  by (relation "measure (\<lambda>(L, offset). Suc offset - length (lookAhead' L))")
     (auto dest!: nextToken_scans_to simp: scans_to_def)

declare peek.simps [simp del]

definition peekT :: "Lexer \<Rightarrow> TokenType \<Rightarrow> nat \<Rightarrow> error + (bool \<times> Lexer)" where
  "peekT L t offset =
     (case peek L offset of Inl e \<Rightarrow> Inl e | Inr (tok, L1) \<Rightarrow> Inr (type tok = t, L1))"

text \<open>
  \<open>consume\<close> fills the deque with one token when it is empty, so that \<open>front()\<close> and
  \<open>pop_front()\<close> always find an element.
\<close>

definition consume :: "Lexer \<Rightarrow> error + (Token \<times> Lexer)" where
  "consume L =
     (case (if lookAhead' L = [] then
              (case nextToken L of
                 Inl e \<Rightarrow> Inl e
               | Inr (t, L1) \<Rightarrow> Inr (L1\<lparr>lookAhead' := lookAhead' L1 @ [t]\<rparr>))
            else Inr L) of
        Inl e \<Rightarrow> Inl e
      | Inr L2 \<Rightarrow> Inr (hd (lookAhead' L2), L2\<lparr>lookAhead' := tl (lookAhead' L2)\<rparr>))"

subsection \<open>Observing the token stream\<close>

text \<open>
  What a client of the lexer can do between \<open>saveState\<close> and \<open>restoreState\<close>: a sequence
  of \<open>peek(offset)\<close> and \<open>consume()\<close> calls.  \<open>observe\<close> runs such a sequence and collects
  the tokens returned, one per call; the first call that ends the process ends the run.
\<close>

datatype LexerCall = Peek nat | Consume

fun call :: "Lexer \<Rightarrow> LexerCall \<Rightarrow> error + (Token \<times> Lexer)" where
  "call L (Peek offset) = peek L offset"
| "call L Consume = consume L"

fun observe :: "Lexer \<Rightarrow> LexerCall list \<Rightarrow> error + (Token list \<times> Lexer)" where
  "observe L [] = Inr ([], L)"
| "observe L (c # cs) =
     (case call L c of
        Inl e \<Rightarrow> Inl e
      | Inr (t, L1) \<Rightarrow>
          (case observe L1 cs of
             Inl e \<Rightarrow> Inl e
           | Inr (ts, L2) \<Rightarrow> Inr (t # ts, L2)))"

lemma nextToken_src: "nextToken L = Inr (t, L1) \<Longrightarrow> src' L1 = src' L"
  by (auto dest: nextToken_scans_to simp: scans_to_def)

lemma peek_src: "peek L offset = Inr (t, L1) \<Longrightarrow> src' L1 = src' L"
proof (induction L offset rule: peek.induct)
  case (1 L offset)
  show ?case
  proof (cases "length (lookAhead' L) \<le> offset")
    case False
    with "1.prems" show ?thesis
      by (subst (asm) peek.simps) auto
  next
    case True
    with "1.prems" obtain t1 L2 where
      nt: "nextToken L = Inr (t1, L2)"
      and rest: "peek (L2\<lparr>lookAhead' := lookAhead' L2 @ [t1]\<rparr>) offset = Inr (t, L1)"
      by (subst (asm) peek.simps) (auto split: sum.splits)
    from True nt rest have "src' L1 = src' (L2\<lparr>lookAhead' := lookAhead' L2 @ [t1]\<rparr>)"
      by (intro "1.IH") auto
    with nextToken_src [OF nt] show ?thesis by simp
  qed
qed

lemma consume_src: "consume L = Inr (t, L1) \<Longrightarrow> src' L1 = src' L"
  by (auto simp: consume_def split: if_splits sum.splits dest: nextToken_src)

lemma call_src: "call L c = Inr (t, L1) \<Longrightarrow> src' L1 = src' L"
  by (cases c) (auto dest: peek_src consume_src)

lemma observe_src: "observe L cs = Inr (ts, L1) \<Longrightarrow> src' L1 = src' L"
proof (induction cs arbitrary: L ts)
  case Nil
  then show ?case by simp
next
  case (Cons c cs)
  then show ?case
    by (auto split: sum.splits dest!: call_src)
qed

lemma restoreState_saveState: "src' L1 = src' L \<Longrightarrow> restoreState (saveState L) L1 = L"
  by (simp add: restoreState_def saveState_def)

subsection \<open>Progress of the token stream\<close>

text \<open>
  Every token other than \<open>EndOfFile\<close> is made of at least one character of the source.
  \<open>tok_measure\<close> counts what is left to read: the characters after the source cursor
  (twice) and the tokens waiting in the deque that are not \<open>EndOfFile\<close>.  Peeking never
  raises it and consuming a token other than \<open>EndOfFile\<close> lowers it, which is what the
  loops of the parser need to terminate.
\<close>

definition chars_left :: "Lexer \<Rightarrow> nat" where
  "chars_left L = length (src' L) - srcCursor' L"

definition tok_measure :: "Lexer \<Rightarrow> nat" where
  "tok_measure L =
     2 * chars_left L + length (filter (\<lambda>t. type t \<noteq> TokEndOfFile) (lookAhead' L))"

lemma scans_to_chars_left: "scans_to L L1 \<Longrightarrow> chars_left L1 \<le> chars_left L"
  by (auto simp: scans_to_def chars_left_def)

lemma consumeChar_chars_left: "consumeChar L = Inr (c, L1) \<Longrightarrow> chars_left L1 < chars_left L"
  by (simp add: chars_left_def consumeChar_measure)

lemma scanDigits_first:
  assumes "srcCursor' L < length (src' L)" and "isdigit (src' L ! srcCursor' L)"
    and "scanDigits L s = Inr (s1, L1)"
  shows "chars_left L1 < chars_left L"
proof -
  from assms obtain r L2 where
    cc: "consumeChar L = Inr (r, L2)" and rest: "scanDigits L2 (s @ [r]) = Inr (s1, L1)"
    by (subst (asm) scanDigits.simps) (auto simp: peekChar_def at_def split: sum.splits)
  from scanDigits_scans_to [OF rest] consumeChar_chars_left [OF cc] show ?thesis
    by (auto dest: scans_to_chars_left)
qed

lemma scanWord_first:
  assumes "srcCursor' L < length (src' L)"
    and "isalnum (src' L ! srcCursor' L) \<or> src' L ! srcCursor' L = CHR ''_''"
    and "scanWord L s = Inr (s1, L1)"
  shows "chars_left L1 < chars_left L"
proof -
  from assms obtain r L2 where
    cc: "consumeChar L = Inr (r, L2)" and rest: "scanWord L2 (s @ [r]) = Inr (s1, L1)"
    by (subst (asm) scanWord.simps) (auto simp: peekChar_def at_def split: sum.splits)
  from scanWord_scans_to [OF rest] consumeChar_chars_left [OF cc] show ?thesis
    by (auto dest: scans_to_chars_left)
qed

lemma keywordMap_not_EndOfFile: "keywordMap s \<noteq> Some TokEndOfFile"
  by (auto simp: keywordMap_def keywordList_def split: if_splits)

lemma scanFraction_type:
  "scanFraction L s ty = Inr (s1, ty1, L1) \<Longrightarrow> ty1 = ty \<or> ty1 = TokFloatLit"
proof (induction L s ty rule: scanFraction.induct)
  case (1 L s ty)
  show ?case
  proof (cases "srcCursor' L < length (src' L) \<and> isdigit (src' L ! srcCursor' L)")
    case False
    with "1.prems" show ?thesis
      by (subst (asm) scanFraction.simps) (auto simp: peekChar_def at_def split: if_splits)
  next
    case True
    with "1.prems" obtain r L2 where
      cc: "consumeChar L = Inr (r, L2)"
      and rest: "scanFraction L2 (s @ [r]) TokFloatLit = Inr (s1, ty1, L1)"
      by (subst (asm) scanFraction.simps) (auto simp: peekChar_def at_def split: sum.splits if_splits)
    from True cc rest have "ty1 = TokFloatLit \<or> ty1 = TokFloatLit"
      by (intro "1.IH") (auto simp: peekChar_def at_def)
    then show ?thesis by simp
  qed
qed

lemma scanNumber_progress:
  assumes "srcCursor' L < length (src' L)" and "isdigit (src' L ! srcCursor' L)"
    and "scanNumber L tok = Inr (t, L1)"
  shows "chars_left L1 < chars_left L \<and> type t \<noteq> TokEndOfFile"
proof -
  from assms(3) obtain lit L2 where d: "scanDigits L [] = Inr (lit, L2)"
    by (auto simp: scanNumber_def split: sum.splits)
  have a: "chars_left L2 < chars_left L"
    using scanDigits_first [OF assms(1,2) d] .
  from assms(3) d obtain c where c: "peekChar L2 0 = Inr c"
    by (auto simp: scanNumber_def split: sum.splits)
  have "scans_to L2 L1 \<and> type t \<noteq> TokEndOfFile"
  proof (cases "c = CHR ''.''")
    case False
    with assms(3) d c show ?thesis
      by (auto simp: scanNumber_def scans_to_refl)
  next
    case True
    with assms(3) d c obtain r L3 lit2 ty where
      cc: "consumeChar L2 = Inr (r, L3)"
      and f: "scanFraction L3 (lit @ [r]) TokIntLit = Inr (lit2, ty, L1)"
      and t: "t = tok\<lparr>type := ty, src := lit2\<rparr>"
      by (auto simp: scanNumber_def split: sum.splits)
    from scanFraction_type [OF f] t have "type t \<noteq> TokEndOfFile" by auto
    moreover from consumeChar_scans_to [OF cc] scanFraction_scans_to [OF f]
    have "scans_to L2 L1" by (rule scans_to_trans)
    ultimately show ?thesis by simp
  qed
  with a show ?thesis by (auto dest: scans_to_chars_left)
qed

lemma scanStringLit_progress:
  assumes "scanStringLit L tok = Inr (t, L1)"
  shows "chars_left L1 < chars_left L \<and> type t \<noteq> TokEndOfFile"
proof -
  from assms obtain r L2 s L3 r3 where
    cc: "consumeChar L = Inr (r, L2)" and sc: "scanString L2 [] = Inr (s, L3)"
    and cc3: "consumeChar L3 = Inr (r3, L1)" and t: "t = tok\<lparr>type := TokStringLit, src := s\<rparr>"
    by (auto simp: scanStringLit_def split: sum.splits if_splits)
  from consumeChar_chars_left [OF cc] scanString_scans_to [OF sc] consumeChar_chars_left [OF cc3] t
  show ?thesis
    by (auto dest: scans_to_chars_left)
qed

lemma scanKeyword_progress:
  assumes "srcCursor' L < length (src' L)"
    and "isalpha (src' L ! srcCursor' L) \<or> src' L ! srcCursor' L = CHR ''_''"
    and "scanKeyword L tok = Inr (t, L1)"
  shows "chars_left L1 < chars_left L \<and> type t \<noteq> TokEndOfFile"
proof -
  from assms(3) obtain w where w: "scanWord L [] = Inr (w, L1)"
    and t: "type t = (case keywordMap w of Some k \<Rightarrow> k | None \<Rightarrow> TokIdentifier)"
    by (auto simp: scanKeyword_def split: sum.splits)
  from assms(2) have "isalnum (src' L ! srcCursor' L) \<or> src' L ! srcCursor' L = CHR ''_''"
    by (auto simp: isalnum_def)
  from scanWord_first [OF assms(1) this w] t keywordMap_not_EndOfFile [of w]
  show ?thesis by (auto split: option.splits)
qed

lemma symbolMap_not_EndOfFile: "symbolMap c \<noteq> Some TokEndOfFile"
  by (auto simp: symbolMap_def symbolList_def split: if_splits)

lemma scanToken_progress:
  assumes "scanToken L = Inr (t, L1)"
  shows "chars_left L1 < chars_left L \<and> type t \<noteq> TokEndOfFile"
proof -
  from assms obtain c where c: "peekChar L 0 = Inr c"
    by (auto simp: scanToken_def split: sum.splits)
  then have inside: "srcCursor' L < length (src' L)" and c_def: "c = src' L ! srcCursor' L"
    by (auto simp: peekChar_def at_def split: if_splits)
  obtain s where s: "substr_n (src' L) (srcCursor' L) 1 = Inr s"
    using inside by (auto simp: substr_n_def)
  define tok0 where "tok0 = \<lparr>type = TokEndOfFile, src = s, row = row' L, col = col' L\<rparr>"
  show ?thesis
  proof (cases "symbolMap c")
    case (Some ty)
    with symbolMap_not_EndOfFile [of c] have ty: "ty \<noteq> TokEndOfFile" by auto
    with assms c s Some obtain r where "consumeChar L = Inr (r, L1)" "type t = ty"
      by (auto simp: scanToken_def Let_def split: sum.splits)
    with ty show ?thesis by (auto dest: consumeChar_chars_left)
  next
    case None
    with assms c s consider
        (num) "isdigit c" "scanNumber L tok0 = Inr (t, L1)"
      | (str) "scanStringLit L tok0 = Inr (t, L1)"
      | (kw) "isalpha c \<or> c = CHR ''_''" "scanKeyword L tok0 = Inr (t, L1)"
      by (auto simp: scanToken_def Let_def tok0_def split: if_splits)
    then show ?thesis
    proof cases
      case num
      then show ?thesis using inside c_def by (auto dest: scanNumber_progress)
    next
      case str
      then show ?thesis by (auto dest: scanStringLit_progress)
    next
      case kw
      then show ?thesis using inside c_def scanKeyword_progress [of L tok0 t L1] by auto
    qed
  qed
qed

lemma nextToken_progress:
  "nextToken L = Inr (t, L1) \<Longrightarrow> type t \<noteq> TokEndOfFile \<Longrightarrow> chars_left L1 < chars_left L"
proof (induction L rule: nextToken.induct)
  case (1 L)
  show ?case
  proof (cases "srcCursor' L < length (src' L)")
    case False
    with "1.prems" show ?thesis
      by (subst (asm) nextToken.simps) (auto split: sum.splits)
  next
    case inside: True
    then have c: "peekChar L 0 = Inr (src' L ! srcCursor' L)"
      by (simp add: peekChar_def at_def)
    define c where "c = src' L ! srcCursor' L"
    define d where "d = src' L ! (srcCursor' L + 1)"
    have fallthrough: "nextToken L = scanToken L"
      if "\<not> (c = CHR 0x0A \<or> isspace c)"
        and "\<not> (c = CHR ''/'' \<and> srcCursor' L + 1 < length (src' L) \<and> (d = CHR ''/'' \<or> d = CHR ''*''))"
      using that inside
      by (subst nextToken.simps) (auto simp: c_def d_def peekChar_def at_def)
    consider (space) "c = CHR 0x0A \<or> isspace c"
      | (line) "\<not> (c = CHR 0x0A \<or> isspace c)" "c = CHR ''/''" "srcCursor' L + 1 < length (src' L)"
          "d = CHR ''/''"
      | (block) "\<not> (c = CHR 0x0A \<or> isspace c)" "c = CHR ''/''" "srcCursor' L + 1 < length (src' L)"
          "d \<noteq> CHR ''/''" "d = CHR ''*''"
      | (token) "nextToken L = scanToken L"
      using fallthrough by blast
    then show ?thesis
    proof cases
      case space
      with "1.prems" inside c obtain r L2 where
        cc: "consumeChar L = Inr (r, L2)" and rest: "nextToken L2 = Inr (t, L1)"
        by (subst (asm) nextToken.simps) (auto simp: c_def split: sum.splits)
      from inside c space cc rest "1.prems"(2) have "chars_left L1 < chars_left L2"
        by (intro "1.IH"(1)) (auto simp: c_def)
      with consumeChar_chars_left [OF cc] show ?thesis by simp
    next
      case line
      from line(3) have d: "peekChar L 1 = Inr d"
        by (simp add: d_def peekChar_def at_def)
      with "1.prems" inside c line obtain r1 L2 r2 L3 L4 where
        cc: "consumeChar L = Inr (r1, L2)" and cc2: "consumeChar L2 = Inr (r2, L3)"
        and sk: "skipLineComment L3 = Inr L4" and rest: "nextToken L4 = Inr (t, L1)"
        by (subst (asm) nextToken.simps) (auto simp: c_def split: sum.splits)
      from inside c d line cc cc2 sk rest "1.prems"(2) have "chars_left L1 < chars_left L4"
        by (intro "1.IH"(2)) (auto simp: c_def)
      with consumeChar_chars_left [OF cc] consumeChar_chars_left [OF cc2]
        scans_to_chars_left [OF skipLineComment_scans_to [OF sk]] show ?thesis
        by simp
    next
      case block
      from block(3) have d: "peekChar L 1 = Inr d"
        by (simp add: d_def peekChar_def at_def)
      with "1.prems" inside c block obtain r1 L2 r2 L3 L4 where
        cc: "consumeChar L = Inr (r1, L2)" and cc2: "consumeChar L2 = Inr (r2, L3)"
        and sk: "skipBlockComment L3 = Inr L4" and rest: "nextToken L4 = Inr (t, L1)"
        by (subst (asm) nextToken.simps) (auto simp: c_def split: sum.splits)
      from inside c d block cc cc2 sk rest "1.prems"(2) have "chars_left L1 < chars_left L4"
        by (intro "1.IH"(3)) (auto simp: c_def)
      with consumeChar_chars_left [OF cc] consumeChar_chars_left [OF cc2]
        scans_to_chars_left [OF skipBlockComment_scans_to [OF sk]] show ?thesis
        by simp
    next
      case token
      with "1.prems" show ?thesis
        by (simp add: scanToken_progress)
    qed
  qed
qed


lemma nextToken_push_measure:
  assumes "nextToken L = Inr (t, L1)"
  shows "tok_measure (L1\<lparr>lookAhead' := lookAhead' L1 @ [t]\<rparr>) \<le> tok_measure L"
proof -
  from nextToken_scans_to [OF assms] have same: "lookAhead' L1 = lookAhead' L"
    and le: "chars_left L1 \<le> chars_left L"
    by (auto simp: scans_to_def chars_left_def)
  show ?thesis
  proof (cases "type t = TokEndOfFile")
    case True
    with same le show ?thesis by (simp add: tok_measure_def chars_left_def)
  next
    case False
    from nextToken_progress [OF assms False] same False show ?thesis
      by (simp add: tok_measure_def chars_left_def)
  qed
qed

lemma peek_measure: "peek L offset = Inr (t, L1) \<Longrightarrow> tok_measure L1 \<le> tok_measure L"
proof (induction L offset rule: peek.induct)
  case (1 L offset)
  show ?case
  proof (cases "length (lookAhead' L) \<le> offset")
    case False
    with "1.prems" show ?thesis
      by (subst (asm) peek.simps) auto
  next
    case True
    with "1.prems" obtain t1 L2 where
      nt: "nextToken L = Inr (t1, L2)"
      and rest: "peek (L2\<lparr>lookAhead' := lookAhead' L2 @ [t1]\<rparr>) offset = Inr (t, L1)"
      by (subst (asm) peek.simps) (auto split: sum.splits)
    from True nt rest have "tok_measure L1 \<le> tok_measure (L2\<lparr>lookAhead' := lookAhead' L2 @ [t1]\<rparr>)"
      by (intro "1.IH") auto
    with nextToken_push_measure [OF nt] show ?thesis by simp
  qed
qed

lemma peek_result:
  "peek L offset = Inr (t, L1) \<Longrightarrow> offset < length (lookAhead' L1) \<and> t = lookAhead' L1 ! offset"
proof (induction L offset rule: peek.induct)
  case (1 L offset)
  show ?case
  proof (cases "length (lookAhead' L) \<le> offset")
    case False
    with "1.prems" show ?thesis
      by (subst (asm) peek.simps) auto
  next
    case True
    with "1.prems" obtain t1 L2 where
      nt: "nextToken L = Inr (t1, L2)"
      and rest: "peek (L2\<lparr>lookAhead' := lookAhead' L2 @ [t1]\<rparr>) offset = Inr (t, L1)"
      by (subst (asm) peek.simps) (auto split: sum.splits)
    from True nt rest show ?thesis
      by (intro "1.IH") auto
  qed
qed

lemma consume_measure:
  assumes "consume L = Inr (t, L1)"
  shows "tok_measure L1 \<le> tok_measure L"
    and "type t \<noteq> TokEndOfFile \<Longrightarrow> tok_measure L1 < tok_measure L"
proof -
  have "\<exists>L2 ts. tok_measure L2 \<le> tok_measure L \<and> lookAhead' L2 = t # ts \<and>
          L1 = L2\<lparr>lookAhead' := ts\<rparr>"
  proof (cases "lookAhead' L")
    case (Cons a as)
    with assms show ?thesis
      by (intro exI [of _ L] exI [of _ as]) (auto simp: consume_def)
  next
    case Nil
    with assms obtain t1 L3 where nt: "nextToken L = Inr (t1, L3)"
      by (auto simp: consume_def split: sum.splits)
    from nextToken_scans_to [OF nt] Nil have "lookAhead' L3 = []"
      by (simp add: scans_to_def)
    with assms Nil nt nextToken_push_measure [OF nt] show ?thesis
      by (intro exI [of _ "L3\<lparr>lookAhead' := [t1]\<rparr>"] exI [of _ "[]"]) (auto simp: consume_def)
  qed
  then obtain L2 ts where le: "tok_measure L2 \<le> tok_measure L"
    and ts: "lookAhead' L2 = t # ts" and L1: "L1 = L2\<lparr>lookAhead' := ts\<rparr>"
    by blast
  have "tok_measure L1 \<le> tok_measure L2"
    by (simp add: L1 ts tok_measure_def chars_left_def)
  with le show "tok_measure L1 \<le> tok_measure L" by simp
  show "tok_measure L1 < tok_measure L" if "type t \<noteq> TokEndOfFile"
  proof -
    from that have "tok_measure L1 < tok_measure L2"
      by (simp add: L1 ts tok_measure_def chars_left_def)
    with le show ?thesis by simp
  qed
qed

lemma consume_after_peek:
  assumes "peek L 0 = Inr (t, L1)"
  shows "consume L1 = Inr (t, L1\<lparr>lookAhead' := tl (lookAhead' L1)\<rparr>)"
  using peek_result [OF assms]
  by (cases "lookAhead' L1") (auto simp: consume_def)

section \<open>Standard containers and conversions\<close>

subsection \<open>\<open>std::map\<close>\<close>

text \<open>
  A \<open>std::map\<close> keeps its entries sorted by key, whatever the order of insertion, and
  iterates in that order.  It is modelled by the list of its entries in iteration order.
  \<open>std::string\<close> keys compare byte by byte, a proper prefix before the longer string,
  which is the order of \<open>string\<close> here.

  \<open>map_insert\<close> is \<open>m.insert({k, v})\<close>, which leaves an existing entry alone;
  \<open>map_assign\<close> is \<open>m[k] = v\<close>, which overwrites it; \<open>map_index\<close> is
  \<open>std::distance(m.begin(), m.find(k))\<close> for a key that is found.
\<close>

fun map_insert :: "'k::linorder \<Rightarrow> 'v \<Rightarrow> ('k \<times> 'v) list \<Rightarrow> ('k \<times> 'v) list" where
  "map_insert k v [] = [(k, v)]"
| "map_insert k v ((k', v') # m) =
     (if k < k' then (k, v) # (k', v') # m
      else if k = k' then (k', v') # m
      else (k', v') # map_insert k v m)"

fun map_assign :: "'k::linorder \<Rightarrow> 'v \<Rightarrow> ('k \<times> 'v) list \<Rightarrow> ('k \<times> 'v) list" where
  "map_assign k v [] = [(k, v)]"
| "map_assign k v ((k', v') # m) =
     (if k < k' then (k, v) # (k', v') # m
      else if k = k' then (k', v) # m
      else (k', v') # map_assign k v m)"

definition map_find :: "('k \<times> 'v) list \<Rightarrow> 'k \<Rightarrow> 'v option" where
  "map_find m k = map_of m k"

fun map_index :: "('k \<times> 'v) list \<Rightarrow> 'k \<Rightarrow> nat option" where
  "map_index [] k = None"
| "map_index ((k', v') # m) k = (if k = k' then Some 0 else map_option Suc (map_index m k))"

text \<open>\<open>m.insert(first, last)\<close> inserts the entries of the range one by one.\<close>

definition map_insert_range :: "('k::linorder \<times> 'v) list \<Rightarrow> ('k \<times> 'v) list \<Rightarrow> ('k \<times> 'v) list" where
  "map_insert_range new m = fold (\<lambda>(k, v). map_insert k v) new m"

subsection \<open>\<open>std::stoi\<close>\<close>

text \<open>
  \<open>std::stoi(str, nullptr, base)\<close> as the parser calls it, with base 10 or 16: leading
  white space, an optional sign, for base 16 an optional \<open>0x\<close> or \<open>0X\<close> that a hexadecimal
  digit follows, then the longest run of digits of the base.  No digit at all throws
  \<open>std::invalid_argument\<close>; a value outside \<open>int\<close> (32 bits) throws \<open>std::out_of_range\<close>.
\<close>

definition digit_value :: "char \<Rightarrow> int option" where
  "digit_value c =
     (if CHR ''0'' \<le> c \<and> c \<le> CHR ''9'' then Some (of_char c - 48)
      else if CHR ''a'' \<le> c \<and> c \<le> CHR ''z'' then Some (of_char c - 87)
      else if CHR ''A'' \<le> c \<and> c \<le> CHR ''Z'' then Some (of_char c - 55)
      else None)"

definition is_digit_of :: "int \<Rightarrow> char \<Rightarrow> bool" where
  "is_digit_of base c = (case digit_value c of Some d \<Rightarrow> d < base | None \<Rightarrow> False)"

definition digits_value :: "int \<Rightarrow> string \<Rightarrow> int" where
  "digits_value base ds = foldl (\<lambda>acc c. acc * base + the (digit_value c)) 0 ds"

definition stoi :: "string \<Rightarrow> int \<Rightarrow> error + int" where
  "stoi str base =
     (let s1 = dropWhile isspace str;
          negative = (s1 \<noteq> [] \<and> hd s1 = CHR ''-'');
          s2 = (if s1 \<noteq> [] \<and> (hd s1 = CHR ''-'' \<or> hd s1 = CHR ''+'') then tl s1 else s1);
          s3 = (if base = 16 \<and> length s2 > 2 \<and> s2 ! 0 = CHR ''0''
                   \<and> (s2 ! 1 = CHR ''x'' \<or> s2 ! 1 = CHR ''X'') \<and> is_digit_of 16 (s2 ! 2)
                then drop 2 s2 else s2);
          ds = takeWhile (is_digit_of base) s3;
          v = (if negative then - digits_value base ds else digits_value base ds)
      in if ds = [] then Inl InvalidArgument
         else if v < - 2147483648 \<or> 2147483647 < v then Inl OutOfRange
         else Inr v)"

section \<open>The typed syntax tree\<close>

subsection \<open>Type descriptors\<close>

text \<open>
  \<open>ast::PrimitiveType\<close>, with \<open>PrimitiveType::X\<close> written \<open>PrimX\<close>.
\<close>

datatype PrimitiveType =
    PrimVoid | PrimBool | PrimChar | PrimShort | PrimInt | PrimLong
  | PrimHalf | PrimFloat | PrimDouble | PrimQuad

text \<open>
  The subclasses of \<open>ast::TypeNode\<close>.  A \<open>ClassReferenceNode\<close> holds a
  \<open>std::shared_ptr<ClassNode>\<close>; every \<open>ClassNode\<close> the parser creates is pushed on
  \<open>Parser::classes_\<close> and stays there, so the pointer is modelled by the position of the
  class in \<open>classes_\<close>.  \<open>ClassNode\<close> itself is not a \<open>TypeNode\<close>.
\<close>

datatype TypeNode =
    PrimitiveTypeNode PrimitiveType bool
  | PointerTypeNode TypeNode
  | ArrayTypeNode TypeNode int
  | ClassReferenceNode nat

fun isSigned :: "TypeNode \<Rightarrow> bool" where
  "isSigned (PrimitiveTypeNode t s) = s"
| "isSigned (PointerTypeNode target) = isSigned target"
| "isSigned (ArrayTypeNode target n) = isSigned target"
| "isSigned (ClassReferenceNode decl) = False"

subsection \<open>Class declarations\<close>

text \<open>
  \<open>ast::ClassNode\<close>: \<open>name_\<close> (written \<open>cname'\<close>) and \<open>members_\<close>, a \<open>std::map\<close> from
  member name to type.  The type of a member is the pointer \<open>parseType\<close> returned, which
  can be null; \<open>lookupMemberType\<close> returns null for a missing member as well.
\<close>

record ClassNode =
  cname' :: string
  members' :: "(string \<times> TypeNode option) list"

definition ClassNode_new :: "string \<Rightarrow> (string \<times> TypeNode option) list \<Rightarrow> ClassNode" where
  "ClassNode_new nm members = \<lparr>cname' = nm, members' = members\<rparr>"



definition addMembers :: "(string \<times> TypeNode option) list \<Rightarrow> ClassNode \<Rightarrow> ClassNode" where
  "addMembers newMembers c = c\<lparr>members' := map_insert_range newMembers (members' c)\<rparr>"

subsection \<open>Expressions and statements\<close>

text \<open>
  The subclasses of \<open>ast::ExpressionNode\<close> and \<open>ast::StatementNode\<close>, each constructor
  with the arguments of the C++ constructor in their order.  The last argument of
  \<open>StructAccess\<close> is a \<open>ClassReferenceNode\<close> and stands here as the class it refers to;
  that of \<open>ArrayAccess\<close> is an \<open>ArrayTypeNode\<close>, given by its element type and length; that
  of \<open>PtrIndexAccess\<close> is a \<open>PointerTypeNode\<close>, given by its target.  The \<open>float\<close> of a
  \<open>FloatLiteral\<close> is kept as the text \<open>std::stof\<close> reads it from.  The statement classes
  \<open>Return\<close>, \<open>If\<close> and \<open>While\<close> are written \<open>ReturnStatement\<close>, \<open>IfStatement\<close> and
  \<open>WhileStatement\<close>.
\<close>

datatype BinaryOperationType = Add | Subtract | Multiply | Divide | Less | More | Equal

datatype ExpressionNode =
    VariableReference string bool
  | StructAccess ExpressionNode string string bool nat
  | ArrayAccess ExpressionNode ExpressionNode bool TypeNode int
  | PtrIndexAccess ExpressionNode ExpressionNode bool TypeNode
  | Dref ExpressionNode TypeNode bool
  | AddressOf ExpressionNode bool
  | IntLiteral int
  | FloatLiteral string
  | StringLiteral string
  | FunctionCall string "ExpressionNode list" bool
  | BinaryOperation BinaryOperationType ExpressionNode ExpressionNode bool

datatype StatementNode =
    VariableDeclaration TypeNode string "ExpressionNode option"
  | AssignmentStatement ExpressionNode ExpressionNode
  | ReturnStatement "ExpressionNode option"
  | IfStatement ExpressionNode "StatementNode list" "StatementNode list option"
  | WhileStatement ExpressionNode "StatementNode list"
  | ExpressionStatement ExpressionNode

subsection \<open>Functions\<close>

text \<open>
  \<open>ast::FunctionNode\<close>.  \<open>type_\<close> is whatever \<open>parseType\<close> returned, which is a null
  pointer when the tokens name no type.
\<close>

record FunctionNode =
  name' :: string
  type' :: "TypeNode option"
  isPublic' :: bool
  params' :: "(string \<times> TypeNode option) list"
  body' :: "StatementNode list option"
  isDetached' :: bool

definition FunctionNode_new ::
  "string \<Rightarrow> TypeNode option \<Rightarrow> bool \<Rightarrow> (string \<times> TypeNode option) list
     \<Rightarrow> StatementNode list option \<Rightarrow> bool \<Rightarrow> FunctionNode" where
  "FunctionNode_new nm ty isPublic params body isDetached =
     \<lparr>name' = nm, type' = ty, isPublic' = isPublic, params' = params, body' = body,
      isDetached' = isDetached\<rparr>"

definition getName :: "FunctionNode \<Rightarrow> string" where
  "getName f = name' f"

definition getReturnType :: "FunctionNode \<Rightarrow> TypeNode option" where
  "getReturnType f = type' f"

section \<open>Parser\<close>

subsection \<open>The parser object\<close>

text \<open>
  The data members of \<open>class Parser\<close>.  \<open>lexer_\<close> is a \<open>std::shared_ptr<Lexer>\<close>; the
  field \<open>lexer'\<close> holds the lexer object it points to.  \<open>types_\<close> and each scope are
  \<open>std::map\<close>s, \<open>importedFiles_\<close> is a \<open>std::set\<close>.
\<close>

record Parser =
  currentClassName' :: string
  currentFileName' :: string
  sourceCode' :: string
  rootFilePath' :: string
  lexer' :: Lexer
  functions' :: "FunctionNode list"
  classes' :: "ClassNode list"
  scopes :: "(string \<times> TypeNode option) list list"
  types' :: "(string \<times> TypeNode) list"
  importedFiles' :: "string set"

definition registerPrimitiveType :: "string \<Rightarrow> TypeNode \<Rightarrow> Parser \<Rightarrow> Parser" where
  "registerPrimitiveType nm ty P = P\<lparr>types' := map_insert nm ty (types' P)\<rparr>"

definition registerStructType :: "string \<Rightarrow> nat \<Rightarrow> Parser \<Rightarrow> Parser" where
  "registerStructType nm structDeclNode P =
     P\<lparr>types' := map_insert nm (ClassReferenceNode structDeclNode) (types' P)\<rparr>"

definition getTypeNode :: "Parser \<Rightarrow> string \<Rightarrow> TypeNode option" where
  "getTypeNode P nm = map_find (types' P) nm"

text \<open>
  The constructor: the members as declared, then the primitive type names in the order
  of the source.  \<open>lexer_\<close> is null until \<open>parse\<close> sets it; the model starts with the
  lexer \<open>parse\<close> will create.
\<close>

definition Parser_new :: "string \<Rightarrow> string \<Rightarrow> Parser" where
  "Parser_new sourceCode filePath =
     (registerPrimitiveType ''quad'' (PrimitiveTypeNode PrimQuad True) \<circ>
      registerPrimitiveType ''double'' (PrimitiveTypeNode PrimDouble True) \<circ>
      registerPrimitiveType ''float'' (PrimitiveTypeNode PrimFloat True) \<circ>
      registerPrimitiveType ''half'' (PrimitiveTypeNode PrimHalf True) \<circ>
      registerPrimitiveType ''ulong'' (PrimitiveTypeNode PrimLong False) \<circ>
      registerPrimitiveType ''long'' (PrimitiveTypeNode PrimLong True) \<circ>
      registerPrimitiveType ''uint'' (PrimitiveTypeNode PrimInt False) \<circ>
      registerPrimitiveType ''int'' (PrimitiveTypeNode PrimInt True) \<circ>
      registerPrimitiveType ''ushort'' (PrimitiveTypeNode PrimShort False) \<circ>
      registerPrimitiveType ''short'' (PrimitiveTypeNode PrimShort True) \<circ>
      registerPrimitiveType ''uchar'' (PrimitiveTypeNode PrimChar False) \<circ>
      registerPrimitiveType ''char'' (PrimitiveTypeNode PrimChar True) \<circ>
      registerPrimitiveType ''void'' (PrimitiveTypeNode PrimVoid False) \<circ>
      registerPrimitiveType ''bool'' (PrimitiveTypeNode PrimBool False))
     \<lparr>currentClassName' = [], currentFileName' = [], sourceCode' = sourceCode,
      rootFilePath' = filePath, lexer' = Lexer_new sourceCode, functions' = [], classes' = [],
      scopes = [], types' = [], importedFiles' = {}\<rparr>"

subsection \<open>Calls on the lexer\<close>

text \<open>\<open>lexer_->peek(offset)\<close>, \<open>lexer_->peekT(t, offset)\<close> and \<open>lexer_->consume()\<close>.\<close>

definition lexer_peek :: "Parser \<Rightarrow> nat \<Rightarrow> error + (Token \<times> Parser)" where
  "lexer_peek P offset =
     (case peek (lexer' P) offset of Inl e \<Rightarrow> Inl e | Inr (t, L) \<Rightarrow> Inr (t, P\<lparr>lexer' := L\<rparr>))"

definition lexer_peekT :: "Parser \<Rightarrow> TokenType \<Rightarrow> nat \<Rightarrow> error + (bool \<times> Parser)" where
  "lexer_peekT P t offset =
     (case peekT (lexer' P) t offset of Inl e \<Rightarrow> Inl e | Inr (b, L) \<Rightarrow> Inr (b, P\<lparr>lexer' := L\<rparr>))"

definition lexer_consume :: "Parser \<Rightarrow> error + (Token \<times> Parser)" where
  "lexer_consume P =
     (case consume (lexer' P) of Inl e \<Rightarrow> Inl e | Inr (t, L) \<Rightarrow> Inr (t, P\<lparr>lexer' := L\<rparr>))"

subsection \<open>Diagnostics and \<open>expect\<close>\<close>

text \<open>
  \<open>emitSyntaxError\<close> and \<open>emitSemanticError\<close> build the source location from
  \<open>lexer_->peek()\<close> before they report, so a lexer failure at that point ends the process
  first.  Either way they do not return.
\<close>

definition emitSyntaxError :: "Parser \<Rightarrow> string \<Rightarrow> error" where
  "emitSyntaxError P msg =
     (case peek (lexer' P) 0 of Inl e \<Rightarrow> e | Inr _ \<Rightarrow> Reported Syntax msg)"

definition emitSemanticError :: "Parser \<Rightarrow> string \<Rightarrow> error" where
  "emitSemanticError P msg =
     (case peek (lexer' P) 0 of Inl e \<Rightarrow> e | Inr _ \<Rightarrow> Reported Semantic msg)"

definition expectedString :: "TokenType \<Rightarrow> string" where
  "expectedString t =
     (if t = TokIdentifier then ''<identifier>''
      else (case tokenToKeyword t of
              Some s \<Rightarrow> s
            | None \<Rightarrow> (case tokenToSymbol t of Some c \<Rightarrow> [c] | None \<Rightarrow> [])))"

definition expect :: "Parser \<Rightarrow> TokenType \<Rightarrow> error + (Token \<times> Parser)" where
  "expect P t =
     (case lexer_peek P 0 of
        Inl e \<Rightarrow> Inl e
      | Inr (tok, P1) \<Rightarrow>
          if type tok \<noteq> t then
            Inl (Reported Syntax (''Expected token: '' @ quoted (expectedString t)))
          else lexer_consume P1)"

definition validateIdentifier :: "Parser \<Rightarrow> string \<Rightarrow> error + unit" where
  "validateIdentifier P ident =
     (if CHR ''_'' \<in> set ident then
        Inl (emitSyntaxError P (''Invalid identifier '' @ quoted ident
               @ '': underscores are not allowed in identifiers''))
      else Inr ())"

subsection \<open>\<open>Parser::parseType\<close>\<close>

text \<open>
  \<open>while (lexer_->peekT(lexer::TokenType::Ptr)) { ptrs++; lexer_->consume(); }\<close>
\<close>

lemma peekT_consume_measure:
  assumes "peekT L t 0 = Inr (True, L1)" and "t \<noteq> TokEndOfFile" and "consume L1 = Inr (tok, L2)"
  shows "tok_measure L2 < tok_measure L"
proof -
  from assms(1) obtain tk where p: "peek L 0 = Inr (tk, L1)" and ty: "type tk = t"
    by (auto simp: peekT_def split: sum.splits)
  from consume_after_peek [OF p] assms(3) have "tok = tk" by simp
  with consume_measure(2) [OF assms(3)] ty assms(2) peek_measure [OF p] show ?thesis
    by simp
qed

function parsePtrs :: "Parser \<Rightarrow> nat \<Rightarrow> error + (nat \<times> Parser)" where
  "parsePtrs P ptrs =
     (case lexer_peekT P TokPtr 0 of
        Inl e \<Rightarrow> Inl e
      | Inr (b, P1) \<Rightarrow>
          if b then
            (case lexer_consume P1 of
               Inl e \<Rightarrow> Inl e
             | Inr (_, P2) \<Rightarrow> parsePtrs P2 (ptrs + 1))
          else Inr (ptrs, P1))"
  by pat_completeness auto
termination
proof (relation "measure (\<lambda>(P, ptrs). tok_measure (lexer' P))", goal_cases)
  case 1
  show ?case by simp
next
  case (2 P ptrs x b P1 y tok P2)
  then obtain L1 where "peekT (lexer' P) TokPtr 0 = Inr (True, L1)" "P1 = P\<lparr>lexer' := L1\<rparr>"
    by (auto simp: lexer_peekT_def split: sum.splits)
  moreover with 2 obtain L2 where "consume L1 = Inr (tok, L2)" "P2 = P1\<lparr>lexer' := L2\<rparr>"
    by (auto simp: lexer_consume_def split: sum.splits)
  ultimately show ?case
    using peekT_consume_measure [of "lexer' P" TokPtr L1 tok L2] by simp
qed

declare parsePtrs.simps [simp del]

text \<open>
  \<open>parseType\<close> returns a null pointer, and consumes nothing but the \<open>ptr\<close> tokens, when
  the text of the next token is not the name of a registered type.  An array length 0 is
  "not an array".
\<close>

definition parseArrayMod :: "Parser \<Rightarrow> error + (int \<times> Parser)" where
  "parseArrayMod P =
     (case lexer_peekT P TokLBracket 0 of
        Inl e \<Rightarrow> Inl e
      | Inr (b, P1) \<Rightarrow>
          if b then
            (case lexer_consume P1 of
               Inl e \<Rightarrow> Inl e
             | Inr (_, P2) \<Rightarrow>
                 (case expect P2 TokIntLit of
                    Inl e \<Rightarrow> Inl e
                  | Inr (tok, P3) \<Rightarrow>
                      let intStr = src tok;
                          base = (if length intStr > 2 \<and> intStr ! 0 = CHR ''0''
                                     \<and> (intStr ! 1 = CHR ''x'' \<or> intStr ! 1 = CHR ''X'')
                                  then 16 else 10)
                      in (case stoi intStr base of
                            Inl e \<Rightarrow> Inl e
                          | Inr arrayLen \<Rightarrow>
                              (case expect P3 TokRBracket of
                                 Inl e \<Rightarrow> Inl e
                               | Inr (_, P4) \<Rightarrow> Inr (arrayLen, P4)))))
          else Inr (0, P1))"

definition parseType :: "Parser \<Rightarrow> error + (TypeNode option \<times> Parser)" where
  "parseType P =
     (case parsePtrs P 0 of
        Inl e \<Rightarrow> Inl e
      | Inr (ptrs, P1) \<Rightarrow>
          (case lexer_peek P1 0 of
             Inl e \<Rightarrow> Inl e
           | Inr (tok, P2) \<Rightarrow>
               (case getTypeNode P2 (src tok) of
                  None \<Rightarrow> Inr (None, P2)
                | Some newType \<Rightarrow>
                    (case lexer_consume P2 of
                       Inl e \<Rightarrow> Inl e
                     | Inr (_, P3) \<Rightarrow>
                         (case parseArrayMod P3 of
                            Inl e \<Rightarrow> Inl e
                          | Inr (arrayLen, P4) \<Rightarrow>
                              let pointed = (PointerTypeNode ^^ ptrs) newType
                              in Inr (Some (if arrayLen \<noteq> 0 then ArrayTypeNode pointed arrayLen
                                            else pointed), P4))))))"

subsection \<open>Tokens left to parse\<close>

text \<open>
  \<open>remaining\<close> is \<open>tok_measure\<close> of the parser's lexer.  No call on the lexer raises it,
  and \<open>expect\<close> of a token type other than \<open>EndOfFile\<close> lowers it: the loops of the parser
  that consume a token in every iteration terminate.
\<close>

definition remaining :: "Parser \<Rightarrow> nat" where
  "remaining P = tok_measure (lexer' P)"

lemma lexer_peek_remaining: "lexer_peek P offset = Inr (t, P1) \<Longrightarrow> remaining P1 \<le> remaining P"
  by (auto simp: lexer_peek_def remaining_def split: sum.splits dest: peek_measure)

lemma lexer_peekT_remaining: "lexer_peekT P t offset = Inr (b, P1) \<Longrightarrow> remaining P1 \<le> remaining P"
  by (auto simp: lexer_peekT_def peekT_def remaining_def split: sum.splits dest: peek_measure)

lemma lexer_consume_remaining: "lexer_consume P = Inr (t, P1) \<Longrightarrow> remaining P1 \<le> remaining P"
  by (auto simp: lexer_consume_def remaining_def split: sum.splits dest: consume_measure(1))

lemma peek_consume_remaining:
  assumes "lexer_peek P 0 = Inr (tk, P1)" and "type tk \<noteq> TokEndOfFile"
    and "lexer_consume P1 = Inr (tok, P2)"
  shows "remaining P2 < remaining P"
proof -
  from assms(1) obtain L1 where p: "peek (lexer' P) 0 = Inr (tk, L1)" and P1: "lexer' P1 = L1"
    by (auto simp: lexer_peek_def split: sum.splits)
  from assms(3) P1 obtain L2 where c: "consume L1 = Inr (tok, L2)" and P2: "lexer' P2 = L2"
    by (auto simp: lexer_consume_def split: sum.splits)
  from consume_after_peek [OF p] c have "tok = tk" by simp
  with consume_measure(2) [OF c] assms(2) peek_measure [OF p] P2 show ?thesis
    by (simp add: remaining_def)
qed

lemma peekT_consume_remaining:
  assumes "lexer_peekT P t 0 = Inr (True, P1)" and "t \<noteq> TokEndOfFile"
    and "lexer_consume P1 = Inr (tok, P2)"
  shows "remaining P2 < remaining P"
proof -
  from assms(1) obtain tk where "lexer_peek P 0 = Inr (tk, P1)" "type tk = t"
    by (auto simp: lexer_peekT_def lexer_peek_def peekT_def split: sum.splits)
  with assms(2,3) show ?thesis
    by (auto dest: peek_consume_remaining)
qed

lemma expect_remaining:
  assumes "expect P t = Inr (tok, P1)" and "t \<noteq> TokEndOfFile"
  shows "remaining P1 < remaining P"
proof -
  from assms(1) obtain tk P0 where "lexer_peek P 0 = Inr (tk, P0)" "type tk = t"
    "lexer_consume P0 = Inr (tok, P1)"
    by (auto simp: expect_def split: sum.splits if_splits)
  with assms(2) show ?thesis
    by (auto dest: peek_consume_remaining)
qed

lemma parsePtrs_remaining: "parsePtrs P ptrs = Inr (n, P1) \<Longrightarrow> remaining P1 \<le> remaining P"
proof (induction P ptrs rule: parsePtrs.induct)
  case (1 P ptrs)
  from "1.prems" obtain b P2 where pk: "lexer_peekT P TokPtr 0 = Inr (b, P2)"
    by (subst (asm) parsePtrs.simps) (auto split: sum.splits)
  show ?case
  proof (cases b)
    case False
    with "1.prems" pk have "P1 = P2"
      by (subst (asm) parsePtrs.simps) auto
    with lexer_peekT_remaining [OF pk] show ?thesis by simp
  next
    case True
    with "1.prems" pk obtain tok P3 where c: "lexer_consume P2 = Inr (tok, P3)"
      and rest: "parsePtrs P3 (ptrs + 1) = Inr (n, P1)"
      by (subst (asm) parsePtrs.simps) (auto split: sum.splits)
    from pk True c rest have "remaining P1 \<le> remaining P3"
      by (intro "1.IH") auto
    with lexer_peekT_remaining [OF pk] lexer_consume_remaining [OF c] show ?thesis
      by simp
  qed
qed

lemma parseArrayMod_remaining: "parseArrayMod P = Inr (n, P1) \<Longrightarrow> remaining P1 \<le> remaining P"
  unfolding parseArrayMod_def Let_def
  by (auto split: sum.splits if_splits
           dest!: lexer_peekT_remaining lexer_consume_remaining expect_remaining)

lemma parseType_remaining: "parseType P = Inr (ty, P1) \<Longrightarrow> remaining P1 \<le> remaining P"
  unfolding parseType_def Let_def
  by (auto split: sum.splits option.splits
           dest!: parsePtrs_remaining lexer_peek_remaining lexer_consume_remaining
                  parseArrayMod_remaining)

lemma peek_idem:
  assumes "peek L offset = Inr (t, L1)"
  shows "peek L1 offset = Inr (t, L1)"
  using peek_result [OF assms] by (subst peek.simps) simp

lemma lexer_peek_idem:
  assumes "lexer_peek P offset = Inr (tok, P1)"
  shows "lexer_peek P1 offset = Inr (tok, P1)"
proof -
  from assms obtain L1 where "peek (lexer' P) offset = Inr (tok, L1)" "P1 = P\<lparr>lexer' := L1\<rparr>"
    by (auto simp: lexer_peek_def split: sum.splits)
  then show ?thesis
    by (auto simp: lexer_peek_def dest: peek_idem)
qed

lemma lexer_peekT_after_peek:
  assumes "lexer_peek P offset = Inr (tok, P1)"
  shows "lexer_peekT P1 t offset = Inr (type tok = t, P1)"
  using lexer_peek_idem [OF assms]
  by (auto simp: lexer_peek_def lexer_peekT_def peekT_def split: sum.splits)

subsection \<open>\<open>Parser::parseClass\<close>, first pass\<close>

text \<open>
  The first pass reads the class body up to its closing brace, collects the data members
  in a \<open>std::map\<close> and skips the member functions.  Where the source calls
  \<open>lexer_->peek()\<close> several times in one condition the model peeks once: a second
  \<open>peek\<close> at the same offset returns the same token and changes nothing.

  The parameter list of a skipped function:
  \<open>while (peek().type != RParen) { if (peek().type != RParen && peek().type != Comma)
  { parseType(); auto token = expect(Identifier); validateIdentifier(token.src); }
  if (peekT(Comma)) consume(); }\<close>
\<close>

function skipParams :: "Parser \<Rightarrow> error + Parser" where
  "skipParams P =
     (case lexer_peek P 0 of
        Inl e \<Rightarrow> Inl e
      | Inr (tok, P1) \<Rightarrow>
          if type tok \<noteq> TokRParen then
            (case (if type tok \<noteq> TokRParen \<and> type tok \<noteq> TokComma then
                     (case parseType P1 of
                        Inl e \<Rightarrow> Inl e
                      | Inr (_, P2) \<Rightarrow>
                          (case expect P2 TokIdentifier of
                             Inl e \<Rightarrow> Inl e
                           | Inr (token, P3) \<Rightarrow>
                               (case validateIdentifier P3 (src token) of
                                  Inl e \<Rightarrow> Inl e
                                | Inr _ \<Rightarrow> Inr P3)))
                   else Inr P1) of
               Inl e \<Rightarrow> Inl e
             | Inr P4 \<Rightarrow>
                 (case lexer_peekT P4 TokComma 0 of
                    Inl e \<Rightarrow> Inl e
                  | Inr (b, P5) \<Rightarrow>
                      if b then
                        (case lexer_consume P5 of
                           Inl e \<Rightarrow> Inl e
                         | Inr (_, P6) \<Rightarrow> skipParams P6)
                      else skipParams P5))
          else Inr P1)"
  by pat_completeness auto
termination
proof (relation "measure remaining", goal_cases)
  case 1
  show ?case by simp
next
  case (2 P x tok P1 P4 y b P5 z t6 P6)
  then have pk: "lexer_peek P 0 = Inr (tok, P1)" and b: "lexer_peekT P4 TokComma 0 = Inr (True, P5)"
    and c: "lexer_consume P5 = Inr (t6, P6)"
    by auto
  from 2 have "remaining P4 \<le> remaining P1"
    by (auto split: if_splits sum.splits dest!: parseType_remaining expect_remaining)
  with lexer_peek_remaining [OF pk] peekT_consume_remaining [OF b _ c] show ?case
    by simp
next
  case (3 P x tok P1 P4 y b P5)
  then have pk: "lexer_peek P 0 = Inr (tok, P1)" and b: "lexer_peekT P4 TokComma 0 = Inr (False, P5)"
    and ne: "type tok \<noteq> TokRParen"
    by auto
  have "remaining P4 < remaining P1"
  proof (cases "type tok = TokComma")
    case True
    with 3 have "P4 = P1" by auto
    from lexer_peekT_after_peek [OF pk] True have "lexer_peekT P1 TokComma 0 = Inr (True, P1)"
      by simp
    with b \<open>P4 = P1\<close> show ?thesis by simp
  next
    case False
    with 3 ne show ?thesis
      by (auto split: sum.splits dest!: parseType_remaining expect_remaining)
  qed
  with lexer_peek_remaining [OF pk] lexer_peekT_remaining [OF b] show ?case
    by simp
qed


declare skipParams.simps [simp del]

lemma skipParams_remaining: "skipParams P = Inr P1 \<Longrightarrow> remaining P1 \<le> remaining P"
proof (induction P rule: skipParams.induct)
  case (1 P)
  from "1.prems" obtain tok P2 where pk: "lexer_peek P 0 = Inr (tok, P2)"
    by (subst (asm) skipParams.simps) (auto split: sum.splits)
  show ?case
  proof (cases "type tok \<noteq> TokRParen")
    case False
    with "1.prems" pk have "P1 = P2"
      by (subst (asm) skipParams.simps) auto
    with lexer_peek_remaining [OF pk] show ?thesis by simp
  next
    case True
    define step where "step =
      (if type tok \<noteq> TokRParen \<and> type tok \<noteq> TokComma then
         (case parseType P2 of
            Inl e \<Rightarrow> Inl e
          | Inr (_, P3) \<Rightarrow>
              (case expect P3 TokIdentifier of
                 Inl e \<Rightarrow> Inl e
               | Inr (token, P4) \<Rightarrow>
                   (case validateIdentifier P4 (src token) of
                      Inl e \<Rightarrow> Inl e
                    | Inr _ \<Rightarrow> Inr P4)))
       else Inr P2)"
    from "1.prems" pk True obtain P5 b P6 where st: "step = Inr P5"
      and pt: "lexer_peekT P5 TokComma 0 = Inr (b, P6)"
      by (subst (asm) skipParams.simps) (auto simp: step_def split: sum.splits)
    from st have le5: "remaining P5 \<le> remaining P2"
      by (auto simp: step_def split: if_splits sum.splits dest!: parseType_remaining expect_remaining)
    show ?thesis
    proof (cases b)
      case True
      with "1.prems" pk \<open>type tok \<noteq> TokRParen\<close> st pt obtain t7 P7 where
        c: "lexer_consume P6 = Inr (t7, P7)" and rest: "skipParams P7 = Inr P1"
        by (subst (asm) skipParams.simps) (auto simp: step_def split: sum.splits)
      from pk \<open>type tok \<noteq> TokRParen\<close> st pt True c rest have "remaining P1 \<le> remaining P7"
        by (intro "1.IH"(1)) (auto simp: step_def)
      with lexer_peek_remaining [OF pk] le5 lexer_peekT_remaining [OF pt]
        lexer_consume_remaining [OF c] show ?thesis by simp
    next
      case False
      with "1.prems" pk \<open>type tok \<noteq> TokRParen\<close> st pt have rest: "skipParams P6 = Inr P1"
        by (subst (asm) skipParams.simps) (auto simp: step_def split: sum.splits)
      from pk \<open>type tok \<noteq> TokRParen\<close> st pt False rest have "remaining P1 \<le> remaining P6"
        by (intro "1.IH"(2)) (auto simp: step_def)
      with lexer_peek_remaining [OF pk] le5 lexer_peekT_remaining [OF pt] show ?thesis
        by simp
    qed
  qed
qed

text \<open>
  The body of a skipped function, after its opening brace:
  \<open>while (braceDepth > 0 && peek().type != EndOfFile) { if (peek().type == LBrace)
  braceDepth++; else if (peek().type == RBrace) braceDepth--; consume(); }\<close>
\<close>

function skipBraces :: "Parser \<Rightarrow> int \<Rightarrow> error + Parser" where
  "skipBraces P braceDepth =
     (if braceDepth > 0 then
        (case lexer_peek P 0 of
           Inl e \<Rightarrow> Inl e
         | Inr (tok, P1) \<Rightarrow>
             if type tok \<noteq> TokEndOfFile then
               (case lexer_consume P1 of
                  Inl e \<Rightarrow> Inl e
                | Inr (_, P2) \<Rightarrow>
                    skipBraces P2 (if type tok = TokLBrace then braceDepth + 1
                                   else if type tok = TokRBrace then braceDepth - 1
                                   else braceDepth))
             else Inr P1)
      else Inr P)"
  by pat_completeness auto
termination
  by (relation "measure (\<lambda>(P, braceDepth). remaining P)")
     (auto dest: peek_consume_remaining)

declare skipBraces.simps [simp del]

lemma skipBraces_remaining: "skipBraces P braceDepth = Inr P1 \<Longrightarrow> remaining P1 \<le> remaining P"
proof (induction P braceDepth rule: skipBraces.induct)
  case (1 P braceDepth)
  show ?case
  proof (cases "braceDepth > 0")
    case False
    with "1.prems" show ?thesis
      by (subst (asm) skipBraces.simps) simp
  next
    case pos: True
    with "1.prems" obtain tok P2 where pk: "lexer_peek P 0 = Inr (tok, P2)"
      by (subst (asm) skipBraces.simps) (auto split: sum.splits)
    show ?thesis
    proof (cases "type tok \<noteq> TokEndOfFile")
      case False
      with "1.prems" pos pk have "P1 = P2"
        by (subst (asm) skipBraces.simps) auto
      with lexer_peek_remaining [OF pk] show ?thesis by simp
    next
      case True
      define bd where "bd = (if type tok = TokLBrace then braceDepth + 1
                              else if type tok = TokRBrace then braceDepth - 1
                              else braceDepth)"
      from "1.prems" pos pk True obtain t3 P3 where c: "lexer_consume P2 = Inr (t3, P3)"
        and rest: "skipBraces P3 bd = Inr P1"
        by (subst (asm) skipBraces.simps) (auto simp: bd_def split: sum.splits)
      from pos pk True c rest have "remaining P1 \<le> remaining P3"
        unfolding bd_def by (intro "1.IH") auto
      with lexer_peek_remaining [OF pk] lexer_consume_remaining [OF c] show ?thesis
        by simp
    qed
  qed
qed

text \<open>
  The rest of a member function in the first pass, from its parameter list on; the
  return type and the name have been consumed.
\<close>

definition skipFunction :: "Parser \<Rightarrow> error + Parser" where
  "skipFunction P =
     (case expect P TokLParen of
        Inl e \<Rightarrow> Inl e
      | Inr (_, P1) \<Rightarrow>
          (case skipParams P1 of
             Inl e \<Rightarrow> Inl e
           | Inr P2 \<Rightarrow>
               (case expect P2 TokRParen of
                  Inl e \<Rightarrow> Inl e
                | Inr (_, P3) \<Rightarrow>
                    (case lexer_peekT P3 TokLBrace 0 of
                       Inl e \<Rightarrow> Inl e
                     | Inr (b, P4) \<Rightarrow>
                         if b then
                           (case lexer_consume P4 of
                              Inl e \<Rightarrow> Inl e
                            | Inr (_, P5) \<Rightarrow> skipBraces P5 1)
                         else
                           (case expect P4 TokSemi of
                              Inl e \<Rightarrow> Inl e
                            | Inr (_, P5) \<Rightarrow> Inr P5)))))"

lemma skipFunction_remaining: "skipFunction P = Inr P1 \<Longrightarrow> remaining P1 \<le> remaining P"
  unfolding skipFunction_def
  by (auto split: sum.splits if_splits
           dest!: expect_remaining skipParams_remaining lexer_peekT_remaining
                  lexer_consume_remaining skipBraces_remaining)

text \<open>
  The loop of the first pass.  A declaration \<open>TYPE NAME ;\<close> is a data member, stored with
  \<open>members[token.src] = type\<close>; anything else must be a member function.
\<close>

function parseMembers ::
  "Parser \<Rightarrow> (string \<times> TypeNode option) list \<Rightarrow> error + ((string \<times> TypeNode option) list \<times> Parser)" where
  "parseMembers P members =
     (case lexer_peek P 0 of
        Inl e \<Rightarrow> Inl e
      | Inr (tok, P1) \<Rightarrow>
          if type tok \<noteq> TokEndOfFile \<and> type tok \<noteq> TokRBrace then
            (case parseType P1 of
               Inl e \<Rightarrow> Inl e
             | Inr (ty, P2) \<Rightarrow>
                 (case expect P2 TokIdentifier of
                    Inl e \<Rightarrow> Inl e
                  | Inr (token, P3) \<Rightarrow>
                      (case validateIdentifier P3 (src token) of
                         Inl e \<Rightarrow> Inl e
                       | Inr _ \<Rightarrow>
                           (case lexer_peekT P3 TokLParen 0 of
                              Inl e \<Rightarrow> Inl e
                            | Inr (b, P4) \<Rightarrow>
                                if \<not> b then
                                  (case expect P4 TokSemi of
                                     Inl e \<Rightarrow> Inl e
                                   | Inr (_, P5) \<Rightarrow>
                                       parseMembers P5 (map_assign (src token) ty members))
                                else
                                  (case skipFunction P4 of
                                     Inl e \<Rightarrow> Inl e
                                   | Inr P5 \<Rightarrow> parseMembers P5 members)))))
          else Inr (members, P1))"
  by pat_completeness auto
termination
proof (relation "measure (\<lambda>(P, members). remaining P)", goal_cases)
  case 1
  show ?case by simp
next
  case (2 P members x tok P1 y ty P2 z token P3 u v b P4 w t5 P5)
  then have "lexer_peek P 0 = Inr (tok, P1)" "parseType P1 = Inr (ty, P2)"
    "expect P2 TokIdentifier = Inr (token, P3)" "lexer_peekT P3 TokLParen 0 = Inr (b, P4)"
    "expect P4 TokSemi = Inr (t5, P5)"
    by auto
  then show ?case
    by (auto dest!: lexer_peek_remaining parseType_remaining expect_remaining lexer_peekT_remaining)
next
  case (3 P members x tok P1 y ty P2 z token P3 u v b P4 P5)
  then have "lexer_peek P 0 = Inr (tok, P1)" "parseType P1 = Inr (ty, P2)"
    "expect P2 TokIdentifier = Inr (token, P3)" "lexer_peekT P3 TokLParen 0 = Inr (b, P4)"
    "skipFunction P4 = Inr P5"
    by auto
  then show ?case
    by (auto dest!: lexer_peek_remaining parseType_remaining expect_remaining lexer_peekT_remaining
                    skipFunction_remaining)
qed

declare parseMembers.simps [simp del]

subsection \<open>\<open>Parser::getNextTypeLength\<close>\<close>

text \<open>
  \<open>getNextTypeLength\<close> only peeks.  Its loop \<open>while (lexer_->peekT(Ptr, i)) i++;\<close> looks
  at one token after the other; it terminates because each \<open>ptr\<close> it finds is either
  already in the deque or is read from the source.
\<close>

lemma peek_offset_measure:
  "peek L i = Inr (t, L1) \<Longrightarrow> type t \<noteq> TokEndOfFile \<Longrightarrow>
     2 * chars_left L1 + (length (lookAhead' L1) - Suc i)
       < 2 * chars_left L + (length (lookAhead' L) - i)"
proof (induction L i rule: peek.induct)
  case (1 L i)
  show ?case
  proof (cases "length (lookAhead' L) \<le> i")
    case False
    with "1.prems" have "L1 = L"
      by (subst (asm) peek.simps) auto
    with False show ?thesis by simp
  next
    case True
    with "1.prems" obtain t1 L2 where
      nt: "nextToken L = Inr (t1, L2)"
      and rest: "peek (L2\<lparr>lookAhead' := lookAhead' L2 @ [t1]\<rparr>) i = Inr (t, L1)"
      by (subst (asm) peek.simps) (auto split: sum.splits)
    define L3 where "L3 = L2\<lparr>lookAhead' := lookAhead' L2 @ [t1]\<rparr>"
    from nextToken_scans_to [OF nt] have same: "lookAhead' L2 = lookAhead' L"
      and le: "chars_left L2 \<le> chars_left L"
      by (auto simp: scans_to_def chars_left_def)
    have len3: "length (lookAhead' L3) = Suc (length (lookAhead' L))"
      and cl3: "chars_left L3 = chars_left L2"
      by (simp_all add: L3_def same chars_left_def)
    from True nt rest "1.prems"(2)
    have IH: "2 * chars_left L1 + (length (lookAhead' L1) - Suc i)
                < 2 * chars_left L3 + (length (lookAhead' L3) - i)"
      unfolding L3_def by (intro "1.IH") auto
    show ?thesis
    proof (cases "type t1 = TokEndOfFile")
      case False
      from nextToken_progress [OF nt False] IH len3 cl3 True show ?thesis
        by simp
    next
      case eof: True
      have "length (lookAhead' L) \<noteq> i"
      proof
        assume "length (lookAhead' L) = i"
        with rest same have "t = t1"
          by (subst (asm) peek.simps) (simp add: nth_append)
        with eof "1.prems"(2) show False by simp
      qed
      with True IH len3 cl3 le show ?thesis by simp
    qed
  qed
qed

function countPtrs :: "Parser \<Rightarrow> nat \<Rightarrow> error + (nat \<times> Parser)" where
  "countPtrs P i =
     (case lexer_peekT P TokPtr i of
        Inl e \<Rightarrow> Inl e
      | Inr (b, P1) \<Rightarrow> if b then countPtrs P1 (i + 1) else Inr (i, P1))"
  by pat_completeness auto
termination
proof (relation "measure (\<lambda>(P, i). 2 * chars_left (lexer' P) + (length (lookAhead' (lexer' P)) - i))",
    goal_cases)
  case 1
  show ?case by simp
next
  case (2 P i x b P1)
  then obtain tk L1 where "peek (lexer' P) i = Inr (tk, L1)" "type tk = TokPtr" "lexer' P1 = L1"
    by (auto simp: lexer_peekT_def peekT_def split: sum.splits)
  then show ?case
    using peek_offset_measure [of "lexer' P" i tk L1] by simp
qed

declare countPtrs.simps [simp del]

definition getNextTypeLength :: "Parser \<Rightarrow> error + (nat \<times> Parser)" where
  "getNextTypeLength P =
     (case countPtrs P 0 of
        Inl e \<Rightarrow> Inl e
      | Inr (i0, P1) \<Rightarrow>
          (case lexer_peekT P1 TokIdentifier i0 of
             Inl e \<Rightarrow> Inl e
           | Inr (isName, P2) \<Rightarrow>
               let i1 = (if isName then i0 + 1 else i0)
               in (case lexer_peekT P2 TokLBracket i1 of
                     Inl e \<Rightarrow> Inl e
                   | Inr (isArray, P3) \<Rightarrow>
                       if isArray then
                         (case lexer_peekT P3 TokIntLit (i1 + 1) of
                            Inl e \<Rightarrow> Inl e
                          | Inr (isLen, P4) \<Rightarrow>
                              let i3 = (if isLen then i1 + 2 else i1 + 1)
                              in (case lexer_peekT P4 TokRBracket i3 of
                                    Inl e \<Rightarrow> Inl e
                                  | Inr (isClose, P5) \<Rightarrow>
                                      Inr (if isClose then i3 + 1 else i3, P5)))
                       else Inr (i1, P3))))"

subsection \<open>\<open>Parser::parseFunction\<close>\<close>

text \<open>Scopes: \<open>scopes.push_back({})\<close>, \<open>scopes.back()[name] = type\<close>, \<open>scopes.pop_back()\<close>.\<close>

definition pushScope :: "Parser \<Rightarrow> Parser" where
  "pushScope P = P\<lparr>scopes := scopes P @ [[]]\<rparr>"

definition popScope :: "Parser \<Rightarrow> Parser" where
  "popScope P = (if scopes P \<noteq> [] then P\<lparr>scopes := butlast (scopes P)\<rparr> else P)"

definition indexVariableType :: "string \<Rightarrow> TypeNode option \<Rightarrow> Parser \<Rightarrow> Parser" where
  "indexVariableType nm ty P =
     P\<lparr>scopes := butlast (scopes P) @ [map_assign nm ty (last (scopes P))]\<rparr>"

text \<open>
  The declared parameters:
  \<open>while (peek().type != RParen) { auto paramType = parseType(); auto token =
  expect(Identifier); validateIdentifier(token.src); params.emplace_back(token.src,
  paramType); if (peekT(Comma)) consume(); }\<close>
\<close>

function parseParams ::
  "Parser \<Rightarrow> (string \<times> TypeNode option) list \<Rightarrow> error + ((string \<times> TypeNode option) list \<times> Parser)" where
  "parseParams P params =
     (case lexer_peek P 0 of
        Inl e \<Rightarrow> Inl e
      | Inr (tok, P1) \<Rightarrow>
          if type tok \<noteq> TokRParen then
            (case parseType P1 of
               Inl e \<Rightarrow> Inl e
             | Inr (paramType, P2) \<Rightarrow>
                 (case expect P2 TokIdentifier of
                    Inl e \<Rightarrow> Inl e
                  | Inr (token, P3) \<Rightarrow>
                      (case validateIdentifier P3 (src token) of
                         Inl e \<Rightarrow> Inl e
                       | Inr _ \<Rightarrow>
                           (case lexer_peekT P3 TokComma 0 of
                              Inl e \<Rightarrow> Inl e
                            | Inr (b, P4) \<Rightarrow>
                                if b then
                                  (case lexer_consume P4 of
                                     Inl e \<Rightarrow> Inl e
                                   | Inr (_, P5) \<Rightarrow>
                                       parseParams P5 (params @ [(src token, paramType)]))
                                else parseParams P4 (params @ [(src token, paramType)])))))
          else Inr (params, P1))"
  by pat_completeness auto
termination
proof (relation "measure (\<lambda>(P, params). remaining P)", goal_cases)
  case 1
  show ?case by simp
next
  case (2 P params x tok P1 y paramType P2 z token P3 u v b P4 w t5 P5)
  then have "lexer_peek P 0 = Inr (tok, P1)" "parseType P1 = Inr (paramType, P2)"
    "expect P2 TokIdentifier = Inr (token, P3)" "lexer_peekT P3 TokComma 0 = Inr (b, P4)"
    "lexer_consume P4 = Inr (t5, P5)"
    by auto
  then show ?case
    by (auto dest!: lexer_peek_remaining parseType_remaining expect_remaining lexer_peekT_remaining
                    lexer_consume_remaining)
next
  case (3 P params x tok P1 y paramType P2 z token P3 u v b P4)
  then have "lexer_peek P 0 = Inr (tok, P1)" "parseType P1 = Inr (paramType, P2)"
    "expect P2 TokIdentifier = Inr (token, P3)" "lexer_peekT P3 TokComma 0 = Inr (b, P4)"
    by auto
  then show ?case
    by (auto dest!: lexer_peek_remaining parseType_remaining expect_remaining lexer_peekT_remaining)
qed

declare parseParams.simps [simp del]

text \<open>
  The statements of a body, \<open>while (!peekT(RBrace)) body->emplace_back(parseStatement());\<close>.
  The statement parser is a parameter of the model; nothing is known about what it
  consumes, so the loop runs on fuel, one unit for each statement.
\<close>

type_synonym statement_parser = "Parser \<Rightarrow> error + (StatementNode \<times> Parser)"

fun parseBody ::
  "nat \<Rightarrow> statement_parser \<Rightarrow> Parser \<Rightarrow> StatementNode list \<Rightarrow> error + (StatementNode list \<times> Parser)" where
  "parseBody 0 parseStatement P body = Inl OutOfFuel"
| "parseBody (Suc fuel) parseStatement P body =
     (case lexer_peekT P TokRBrace 0 of
        Inl e \<Rightarrow> Inl e
      | Inr (b, P1) \<Rightarrow>
          if \<not> b then
            (case parseStatement P1 of
               Inl e \<Rightarrow> Inl e
             | Inr (s, P2) \<Rightarrow> parseBody fuel parseStatement P2 (body @ [s]))
          else Inr (body, P1))"

text \<open>
  \<open>parseFunction\<close>.  The name is mangled with the class name inside a class.  The
  implicit parameter \<open>this\<close> is added only if the class name is the name of a registered
  type: \<open>auto thisType = getTypeNode(currentClassName_); if (thisType) ...\<close>.  After the
  parameter list one token is consumed whatever it is; an opening brace starts a body.
\<close>

definition mangledName :: "Parser \<Rightarrow> string \<Rightarrow> string" where
  "mangledName P baseName =
     (let isDetached = (currentClassName' P = [])
      in if isDetached then baseName
         else if currentClassName' P \<noteq> [] then currentClassName' P @ ''_'' @ baseName
         else baseName)"

definition thisParam :: "Parser \<Rightarrow> (string \<times> TypeNode option) list" where
  "thisParam P =
     (let isDetached = (currentClassName' P = [])
      in if \<not> isDetached \<and> currentClassName' P \<noteq> [] then
           (case getTypeNode P (currentClassName' P) of
              Some thisType \<Rightarrow> [(''this'', Some (PointerTypeNode thisType))]
            | None \<Rightarrow> [])
         else [])"

definition parseFunctionBody ::
  "nat \<Rightarrow> statement_parser \<Rightarrow> Parser \<Rightarrow> (string \<times> TypeNode option) list
     \<Rightarrow> error + (StatementNode list option \<times> Parser)" where
  "parseFunctionBody fuel parseStatement P params =
     (case lexer_consume P of
        Inl e \<Rightarrow> Inl e
      | Inr (tok, P1) \<Rightarrow>
          if type tok = TokLBrace then
            (let P2 = fold (\<lambda>(nm, ty). indexVariableType nm ty) params (pushScope P1)
             in (case parseBody fuel parseStatement P2 [] of
                   Inl e \<Rightarrow> Inl e
                 | Inr (body, P3) \<Rightarrow>
                     (case expect P3 TokRBrace of
                        Inl e \<Rightarrow> Inl e
                      | Inr (_, P4) \<Rightarrow> Inr (Some body, popScope P4))))
          else Inr (None, P1))"

definition parseFunction :: "nat \<Rightarrow> statement_parser \<Rightarrow> Parser \<Rightarrow> error + (FunctionNode \<times> Parser)" where
  "parseFunction fuel parseStatement P =
     (let isDetached = (currentClassName' P = [])
      in (case parseType P of
            Inl e \<Rightarrow> Inl e
          | Inr (ty, P1) \<Rightarrow>
              (case expect P1 TokIdentifier of
                 Inl e \<Rightarrow> Inl e
               | Inr (nameToken, P2) \<Rightarrow>
                   (case validateIdentifier P2 (src nameToken) of
                      Inl e \<Rightarrow> Inl e
                    | Inr _ \<Rightarrow>
                        (case expect P2 TokLParen of
                           Inl e \<Rightarrow> Inl e
                         | Inr (_, P3) \<Rightarrow>
                             (case parseParams P3 (thisParam P3) of
                                Inl e \<Rightarrow> Inl e
                              | Inr (params, P4) \<Rightarrow>
                                  (case expect P4 TokRParen of
                                     Inl e \<Rightarrow> Inl e
                                   | Inr (_, P5) \<Rightarrow>
                                       (case parseFunctionBody fuel parseStatement P5 params of
                                          Inl e \<Rightarrow> Inl e
                                        | Inr (body, P6) \<Rightarrow>
                                            Inr (FunctionNode_new (mangledName P2 (src nameToken))
                                                   ty True params body isDetached, P6)))))))))"

subsection \<open>\<open>Parser::parseFunctions\<close> and \<open>Parser::parseClass\<close>\<close>

text \<open>
  The second pass over a class body parses the member functions and skips the data
  members.  \<open>case Typedef\<close> consumes the token and falls through to \<open>default\<close>.  Every
  iteration takes one unit of fuel, because \<open>parseFunction\<close> runs the statement parser.
\<close>

fun parseFunctions :: "nat \<Rightarrow> statement_parser \<Rightarrow> Parser \<Rightarrow> error + Parser" where
  "parseFunctions 0 parseStatement P = Inl OutOfFuel"
| "parseFunctions (Suc fuel) parseStatement P =
     (case lexer_peek P 0 of
        Inl e \<Rightarrow> Inl e
      | Inr (tok, P1) \<Rightarrow>
          if type tok \<noteq> TokEndOfFile \<and> type tok \<noteq> TokRBrace then
            (case (if type tok = TokTypedef then
                     (case lexer_consume P1 of Inl e \<Rightarrow> Inl e | Inr (_, P2) \<Rightarrow> Inr P2)
                   else Inr P1) of
               Inl e \<Rightarrow> Inl e
             | Inr P2 \<Rightarrow>
                 (case getNextTypeLength P2 of
                    Inl e \<Rightarrow> Inl e
                  | Inr (len, P3) \<Rightarrow>
                      (case lexer_peekT P3 TokLParen (len + 1) of
                         Inl e \<Rightarrow> Inl e
                       | Inr (b, P4) \<Rightarrow>
                           if b then
                             (case parseFunction fuel parseStatement P4 of
                                Inl e \<Rightarrow> Inl e
                              | Inr (f, P5) \<Rightarrow>
                                  parseFunctions fuel parseStatement
                                    (P5\<lparr>functions' := functions' P5 @ [f]\<rparr>))
                           else
                             (case parseType P4 of
                                Inl e \<Rightarrow> Inl e
                              | Inr (_, P5) \<Rightarrow>
                                  (case expect P5 TokIdentifier of
                                     Inl e \<Rightarrow> Inl e
                                   | Inr (_, P6) \<Rightarrow>
                                       (case expect P6 TokSemi of
                                          Inl e \<Rightarrow> Inl e
                                        | Inr (_, P7) \<Rightarrow>
                                            parseFunctions fuel parseStatement P7))))))
          else Inr P1)"

text \<open>
  The end of the first pass, "create struct for data members".  Nothing happens for a
  class without data members.  Otherwise, if the class name is registered as a class
  type, the new members are inserted into that declaration; if it is registered as some
  other type, they are dropped; if it is not registered, a new \<open>ClassNode\<close> is pushed on
  \<open>classes_\<close> and registered under the class name.
\<close>

definition closeClass :: "(string \<times> TypeNode option) list \<Rightarrow> Parser \<Rightarrow> Parser" where
  "closeClass members P =
     (if currentClassName' P \<noteq> [] \<and> members \<noteq> [] then
        (case getTypeNode P (currentClassName' P) of
           Some existingType \<Rightarrow>
             (case existingType of
                ClassReferenceNode decl \<Rightarrow>
                  P\<lparr>classes' := (classes' P)[decl := addMembers members (classes' P ! decl)]\<rparr>
              | _ \<Rightarrow> P)
         | None \<Rightarrow>
             registerStructType (currentClassName' P) (length (classes' P))
               (P\<lparr>classes' := classes' P @ [ClassNode_new (currentClassName' P) members]\<rparr>))
      else P)"

definition parseClass :: "nat \<Rightarrow> statement_parser \<Rightarrow> Parser \<Rightarrow> error + Parser" where
  "parseClass fuel parseStatement P =
     (let savedState = saveState (lexer' P)
      in (case parseMembers P [] of
            Inl e \<Rightarrow> Inl e
          | Inr (members, P1) \<Rightarrow>
              let P2 = closeClass members P1
              in parseFunctions fuel parseStatement
                   (P2\<lparr>lexer' := restoreState savedState (lexer' P2)\<rparr>)))"

subsection \<open>\<open>Parser::insertTypeDef\<close>\<close>

text \<open>
  \<open>insertTypeDef\<close> casts the descriptor bound to the target name twice.
  \<open>std::dynamic_pointer_cast<ast::PrimitiveTypeNode>\<close> succeeds on a primitive type and
  on nothing else.  \<open>std::dynamic_pointer_cast<ast::ClassNode>\<close> is applied to a
  \<open>std::shared_ptr<ast::TypeNode>\<close>; \<open>ClassNode\<close> is not derived from \<open>TypeNode\<close>, no
  object is both, and the cast yields null for every descriptor.
\<close>

definition cast_PrimitiveTypeNode :: "TypeNode option \<Rightarrow> TypeNode option" where
  "cast_PrimitiveTypeNode p =
     (case p of Some (PrimitiveTypeNode t s) \<Rightarrow> Some (PrimitiveTypeNode t s) | _ \<Rightarrow> None)"

definition cast_ClassNode :: "TypeNode option \<Rightarrow> nat option" where
  "cast_ClassNode p = None"

definition insertTypeDef :: "string \<Rightarrow> string \<Rightarrow> Parser \<Rightarrow> error + Parser" where
  "insertTypeDef alias targetName P =
     (let targetType = getTypeNode P targetName
      in (case cast_PrimitiveTypeNode targetType of
            Some targetPrimitiveType \<Rightarrow> Inr (registerPrimitiveType alias targetPrimitiveType P)
          | None \<Rightarrow>
              (case cast_ClassNode targetType of
                 Some targetClassType \<Rightarrow> Inr (registerStructType alias targetClassType P)
               | None \<Rightarrow> Inl (emitSyntaxError P ''Invalid target type in typedef''))))"

subsection \<open>\<open>Parser::parseFile\<close>\<close>

text \<open>
  The cases of the \<open>switch\<close> in \<open>parseFile\<close>.  The \<open>Intdef\<close> case of the source is left
  out: \<open>TokenType\<close> has no such enumerator and the lexer produces no such token.
\<close>

definition parseImportCase :: "Parser \<Rightarrow> error + Parser" where
  "parseImportCase P =
     (case lexer_consume P of
        Inl e \<Rightarrow> Inl e
      | Inr (_, P1) \<Rightarrow>
          (case expect P1 TokStringLit of
             Inl e \<Rightarrow> Inl e
           | Inr (_, P2) \<Rightarrow>
               (case expect P2 TokSemi of Inl e \<Rightarrow> Inl e | Inr (_, P3) \<Rightarrow> Inr P3)))"

definition parseTypedefCase :: "Parser \<Rightarrow> error + Parser" where
  "parseTypedefCase P =
     (case expect P TokTypedef of
        Inl e \<Rightarrow> Inl e
      | Inr (_, P1) \<Rightarrow>
          (case expect P1 TokIdentifier of
             Inl e \<Rightarrow> Inl e
           | Inr (aliasToken, P2) \<Rightarrow>
               (case expect P2 TokIdentifier of
                  Inl e \<Rightarrow> Inl e
                | Inr (targetToken, P3) \<Rightarrow>
                    (case insertTypeDef (src aliasToken) (src targetToken) P3 of
                       Inl e \<Rightarrow> Inl e
                     | Inr P4 \<Rightarrow>
                         (case expect P4 TokSemi of Inl e \<Rightarrow> Inl e | Inr (_, P5) \<Rightarrow> Inr P5)))))"

definition parseClassCase :: "nat \<Rightarrow> statement_parser \<Rightarrow> Parser \<Rightarrow> error + Parser" where
  "parseClassCase fuel parseStatement P =
     (case lexer_consume P of
        Inl e \<Rightarrow> Inl e
      | Inr (_, P1) \<Rightarrow>
          (case expect P1 TokIdentifier of
             Inl e \<Rightarrow> Inl e
           | Inr (classNameToken, P2) \<Rightarrow>
               (case validateIdentifier P2 (src classNameToken) of
                  Inl e \<Rightarrow> Inl e
                | Inr _ \<Rightarrow>
                    (case expect (P2\<lparr>currentClassName' := src classNameToken\<rparr>) TokLBrace of
                       Inl e \<Rightarrow> Inl e
                     | Inr (_, P3) \<Rightarrow>
                         (case parseClass fuel parseStatement P3 of
                            Inl e \<Rightarrow> Inl e
                          | Inr P4 \<Rightarrow>
                              (case expect P4 TokRBrace of
                                 Inl e \<Rightarrow> Inl e
                               | Inr (_, P5) \<Rightarrow> Inr (P5\<lparr>currentClassName' := []\<rparr>)))))))"

fun parseFile :: "nat \<Rightarrow> statement_parser \<Rightarrow> Parser \<Rightarrow> error + Parser" where
  "parseFile 0 parseStatement P = Inl OutOfFuel"
| "parseFile (Suc fuel) parseStatement P =
     (case lexer_peek P 0 of
        Inl e \<Rightarrow> Inl e
      | Inr (tok, P1) \<Rightarrow>
          if type tok \<noteq> TokEndOfFile then
            (case (if type tok = TokImport then parseImportCase P1
                   else if type tok = TokTypedef then parseTypedefCase P1
                   else if type tok = TokClass then parseClassCase fuel parseStatement P1
                   else (case parseFunction fuel parseStatement P1 of
                           Inl e \<Rightarrow> Inl e
                         | Inr (f, P2) \<Rightarrow> Inr (P2\<lparr>functions' := functions' P2 @ [f]\<rparr>))) of
               Inl e \<Rightarrow> Inl e
             | Inr P3 \<Rightarrow> parseFile fuel parseStatement P3)
          else Inr P1)"

text \<open>A statement parser for sources whose function bodies are empty: it is never called.\<close>

definition noStatements :: statement_parser where
  "noStatements P = Inl (Reported Syntax ''statement'')"

subsection \<open>Order of a \<open>std::map\<close>\<close>

text \<open>
  The keys of a \<open>std::map\<close> are strictly increasing in iteration order.  Both ways of
  inserting keep it so, and the position of a key is the number of smaller keys.
\<close>

definition keys_sorted :: "('k::linorder \<times> 'v) list \<Rightarrow> bool" where
  "keys_sorted m \<longleftrightarrow> sorted_wrt (<) (map fst m)"

lemma keys_sorted_Nil: "keys_sorted []"
  by (simp add: keys_sorted_def)

lemma set_map_assign: "fst ` set (map_assign k v m) = insert k (fst ` set m)"
proof (induction m)
  case Nil
  show ?case by simp
next
  case (Cons p m)
  then show ?case by (cases p) (simp add: insert_commute)
qed

lemma set_map_insert: "fst ` set (map_insert k v m) = insert k (fst ` set m)"
proof (induction m)
  case Nil
  show ?case by simp
next
  case (Cons p m)
  then show ?case by (cases p) (simp add: insert_commute)
qed

lemma keys_sorted_map_assign: "keys_sorted m \<Longrightarrow> keys_sorted (map_assign k v m)"
proof (induction m)
  case Nil
  then show ?case by (simp add: keys_sorted_def)
next
  case (Cons p m)
  obtain k' v' where p: "p = (k', v')" by (cases p)
  from Cons.prems have tl: "keys_sorted m" and hd: "\<forall>x \<in> fst ` set m. k' < x"
    by (auto simp: keys_sorted_def p)
  show ?case
  proof (cases "k < k'")
    case True
    with Cons.prems show ?thesis
      by (auto simp: keys_sorted_def p)
  next
    case False
    show ?thesis
    proof (cases "k = k'")
      case True
      with Cons.prems show ?thesis
        by (auto simp: keys_sorted_def p)
    next
      case ne: False
      with False have "k' < k" by simp
      with hd have "\<forall>x \<in> fst ` set (map_assign k v m). k' < x"
        by (simp add: set_map_assign)
      with Cons.IH [OF tl] False ne show ?thesis
        by (auto simp: keys_sorted_def p)
    qed
  qed
qed

lemma keys_sorted_map_insert: "keys_sorted m \<Longrightarrow> keys_sorted (map_insert k v m)"
proof (induction m)
  case Nil
  then show ?case by (simp add: keys_sorted_def)
next
  case (Cons p m)
  obtain k' v' where p: "p = (k', v')" by (cases p)
  from Cons.prems have tl: "keys_sorted m" and hd: "\<forall>x \<in> fst ` set m. k' < x"
    by (auto simp: keys_sorted_def p)
  show ?case
  proof (cases "k < k'")
    case True
    with Cons.prems show ?thesis
      by (auto simp: keys_sorted_def p)
  next
    case False
    show ?thesis
    proof (cases "k = k'")
      case True
      with Cons.prems show ?thesis
        by (auto simp: keys_sorted_def p)
    next
      case ne: False
      with False have "k' < k" by simp
      with hd have "\<forall>x \<in> fst ` set (map_insert k v m). k' < x"
        by (simp add: set_map_insert)
      with Cons.IH [OF tl] False ne show ?thesis
        by (auto simp: keys_sorted_def p)
    qed
  qed
qed

lemma keys_sorted_map_insert_range: "keys_sorted m \<Longrightarrow> keys_sorted (map_insert_range new m)"
  unfolding map_insert_range_def
  by (induction new arbitrary: m) (auto simp: keys_sorted_map_insert)

lemma map_index_sorted:
  "keys_sorted m \<Longrightarrow> k \<in> fst ` set m \<Longrightarrow>
     map_index m k = Some (card {k' \<in> fst ` set m. k' < k})"
proof (induction m)
  case Nil
  then show ?case by simp
next
  case (Cons p m)
  obtain k0 v0 where p: "p = (k0, v0)" by (cases p)
  from Cons.prems(1) have tl: "keys_sorted m" and hd: "\<forall>x \<in> fst ` set m. k0 < x"
    by (auto simp: keys_sorted_def p)
  show ?case
  proof (cases "k = k0")
    case True
    with hd have "{k' \<in> fst ` set (p # m). k' < k} = {}"
      by (auto simp: p)
    with True show ?thesis by (simp add: p)
  next
    case False
    with Cons.prems(2) have mem: "k \<in> fst ` set m" by (auto simp: p)
    with hd have "k0 < k" by auto
    with hd have "{k' \<in> fst ` set (p # m). k' < k} = insert k0 {k' \<in> fst ` set m. k' < k}"
      by (auto simp: p)
    moreover from hd have "k0 \<notin> {k' \<in> fst ` set m. k' < k}" by auto
    ultimately have "card {k' \<in> fst ` set (p # m). k' < k} = Suc (card {k' \<in> fst ` set m. k' < k})"
      by simp
    with Cons.IH [OF tl mem] False show ?thesis
      by (simp add: p)
  qed
qed

lemma map_index_nth:
  "map_index m k = Some i \<Longrightarrow> i < length m \<and> fst (m ! i) = k"
proof (induction m arbitrary: i)
  case Nil
  then show ?case by simp
next
  case (Cons p m)
  then show ?case
    by (cases p) (auto split: if_splits)
qed

lemma parseMembers_keys:
  "parseMembers P members = Inr (members1, P1) \<Longrightarrow> keys_sorted members \<Longrightarrow> keys_sorted members1"
proof (induction P members rule: parseMembers.induct)
  case (1 P members)
  from "1.prems"(1) obtain tok P2 where pk: "lexer_peek P 0 = Inr (tok, P2)"
    by (subst (asm) parseMembers.simps) (auto split: sum.splits)
  show ?case
  proof (cases "type tok \<noteq> TokEndOfFile \<and> type tok \<noteq> TokRBrace")
    case False
    with "1.prems" pk show ?thesis
      by (subst (asm) parseMembers.simps) auto
  next
    case True
    with "1.prems"(1) pk obtain ty P3 token P4 b P5 where
      pt: "parseType P2 = Inr (ty, P3)" and ex: "expect P3 TokIdentifier = Inr (token, P4)"
      and va: "validateIdentifier P4 (src token) = Inr ()"
      and pl: "lexer_peekT P4 TokLParen 0 = Inr (b, P5)"
      by (subst (asm) parseMembers.simps) (auto split: sum.splits)
    show ?thesis
    proof (cases b)
      case False
      with "1.prems"(1) pk True pt ex va pl obtain t6 P6 where
        se: "expect P5 TokSemi = Inr (t6, P6)"
        and rest: "parseMembers P6 (map_assign (src token) ty members) = Inr (members1, P1)"
        by (subst (asm) parseMembers.simps) (auto split: sum.splits)
      from pk True pt ex va pl False se rest "1.prems"(2) show ?thesis
        by (intro "1.IH"(1)) (auto simp: keys_sorted_map_assign)
    next
      case isFun: True
      with "1.prems"(1) pk True pt ex va pl obtain P6 where
        sk: "skipFunction P5 = Inr P6" and rest: "parseMembers P6 members = Inr (members1, P1)"
        by (subst (asm) parseMembers.simps) (auto split: sum.splits)
      from pk True pt ex va pl isFun sk rest "1.prems"(2) show ?thesis
        by (intro "1.IH"(2)) auto
    qed
  qed
qed

section \<open>IR builder\<close>

subsection \<open>LLVM types, values and instructions\<close>

text \<open>
  The part of LLVM the compiler uses.  A named struct type is identified by its name.
  Every instruction carries a number that tells it from all others, as the address of
  the \<open>llvm::Instruction\<close> does.  A \<open>GetElementPtrInst\<close> holds its source element type,
  pointer, indices, result element type and name.  A basic block is known by its position
  in the list of blocks of the module.
\<close>

datatype llvm_type =
    VoidTy | IntegerTy nat | HalfTy | FloatTy | DoubleTy | FP128Ty | PointerTy
  | ArrayTy llvm_type int | StructTy string

datatype BinaryOps = AddOp | SubOp | MulOp | UDivOp

datatype Predicate = ICMP_ULT | ICMP_UGT | ICMP_EQ

datatype CastOps = SExt | ZExt | Trunc

datatype Value =
    ConstantInt llvm_type int
  | ConstantFP llvm_type string
  | Argument llvm_type nat
  | GlobalVariable nat llvm_type string
  | Inst Instruction
and Instruction =
    AllocaInst nat llvm_type string
  | LoadInst nat llvm_type Value string
  | StoreInst nat Value Value
  | GetElementPtrInst nat llvm_type Value "Value list" llvm_type string
  | BinaryOperator nat BinaryOps Value Value string
  | ICmpInst nat Predicate Value Value
  | CastInst nat CastOps Value llvm_type string
  | CallInst nat string "Value list" llvm_type string
  | ReturnInst nat "Value option"
  | BrInst nat nat
  | CondBrInst nat Value nat nat

fun getType :: "Value \<Rightarrow> llvm_type" and instType :: "Instruction \<Rightarrow> llvm_type" where
  "getType (ConstantInt ty v) = ty"
| "getType (ConstantFP ty v) = ty"
| "getType (Argument ty i) = ty"
| "getType (GlobalVariable n ty s) = PointerTy"
| "getType (Inst i) = instType i"
| "instType (AllocaInst n ty nm) = PointerTy"
| "instType (LoadInst n ty p nm) = ty"
| "instType (StoreInst n v p) = VoidTy"
| "instType (GetElementPtrInst n ty p idxs rty nm) = PointerTy"
| "instType (BinaryOperator n opc l r nm) = getType l"
| "instType (ICmpInst n pr l r) = IntegerTy 1"
| "instType (CastInst n opc v ty nm) = ty"
| "instType (CallInst n callee args ty nm) = ty"
| "instType (ReturnInst n v) = VoidTy"
| "instType (BrInst n dest) = VoidTy"
| "instType (CondBrInst n c t f) = VoidTy"





fun isTerminator :: "Instruction \<Rightarrow> bool" where
  "isTerminator (ReturnInst n v) = True"
| "isTerminator (BrInst n dest) = True"
| "isTerminator (CondBrInst n c t f) = True"
| "isTerminator _ = False"

record Function =
  fname :: string
  returnType :: llvm_type
  paramTypes :: "llvm_type list"
  externalLinkage :: bool
  argNames :: "string list"

record BasicBlock =
  bname :: string
  parent :: nat
  instructions :: "Instruction list"


subsection \<open>\<open>CodegenContext\<close>\<close>

text \<open>
  \<open>struct CodegenContext\<close>.  \<open>module\<close> is the list of functions created so far and the
  list of all their basic blocks in order of creation; \<open>builder\<close> is its insertion block
  and the number of the next instruction; \<open>llvmContext\<close> is the table of struct bodies.
  The builder inserts at the end of its block, and its constant folder is not modelled:
  every \<open>Create...\<close> call appends the instruction it names.  \<open>scopes\<close> is written
  \<open>ctx_scopes\<close>.
\<close>

record CodegenContext =
  module_functions :: "Function list"
  module_blocks :: "BasicBlock list"
  insertBlock :: nat
  nextNumber :: nat
  structBodies :: "(string \<times> llvm_type list) list"
  ctx_scopes :: "(string \<times> Value) list list"
  namedStructs :: "(string \<times> llvm_type \<times> string list) list"


text \<open>
  A function of the IR builder takes the context and returns a result and the new
  context, or ends the process.
\<close>

type_synonym 'a codegen = "CodegenContext \<Rightarrow> error + ('a \<times> CodegenContext)"

definition return :: "'a \<Rightarrow> 'a codegen" where
  "return a ctx = Inr (a, ctx)"

definition fail :: "error \<Rightarrow> 'a codegen" where
  "fail e ctx = Inl e"

definition bind :: "'a codegen \<Rightarrow> ('a \<Rightarrow> 'b codegen) \<Rightarrow> 'b codegen" where
  "bind m f ctx = (case m ctx of Inl e \<Rightarrow> Inl e | Inr (a, ctx1) \<Rightarrow> f a ctx1)"

lemma bind_cong [fundef_cong]:
  "m ctx = m' ctx' \<Longrightarrow> (\<And>a ctx1. m' ctx' = Inr (a, ctx1) \<Longrightarrow> f a ctx1 = f' a ctx1)
     \<Longrightarrow> bind m f ctx = bind m' f' ctx'"
  by (auto simp: bind_def split: sum.splits)


definition declareStruct :: "string \<Rightarrow> llvm_type \<Rightarrow> string list \<Rightarrow> unit codegen" where
  "declareStruct nm ty names ctx =
     Inr ((), ctx\<lparr>namedStructs := map_insert nm (ty, names) (namedStructs ctx)\<rparr>)"






subsection \<open>The builder\<close>





































subsection \<open>Lowering of types\<close>

text \<open>
  \<open>TypeNode::codeGen\<close> for the four kinds of type descriptor.  For a class reference it
  is \<open>ClassNode::codeGen\<close>: the struct registered under the name of the class if there is
  one, otherwise a new named struct, which is registered with the member names in the
  order of the member map before its body is set from the member types in the same
  order.  \<open>classes\<close> is the list of class declarations the references point into.

  The recursion through class references ends because every class entered is registered
  first; the model bounds its depth by fuel instead.  A member whose type pointer is null
  is dereferenced.
\<close>

fun PrimitiveTypeNode_codeGen :: "PrimitiveType \<Rightarrow> llvm_type" where
  "PrimitiveTypeNode_codeGen PrimVoid = VoidTy"
| "PrimitiveTypeNode_codeGen PrimBool = IntegerTy 1"
| "PrimitiveTypeNode_codeGen PrimChar = IntegerTy 8"
| "PrimitiveTypeNode_codeGen PrimShort = IntegerTy 16"
| "PrimitiveTypeNode_codeGen PrimInt = IntegerTy 32"
| "PrimitiveTypeNode_codeGen PrimLong = IntegerTy 64"
| "PrimitiveTypeNode_codeGen PrimHalf = HalfTy"
| "PrimitiveTypeNode_codeGen PrimFloat = FloatTy"
| "PrimitiveTypeNode_codeGen PrimDouble = DoubleTy"
| "PrimitiveTypeNode_codeGen PrimQuad = FP128Ty"

definition setBody :: "string \<Rightarrow> llvm_type list \<Rightarrow> unit codegen" where
  "setBody nm body ctx = Inr ((), ctx\<lparr>structBodies := map_assign nm body (structBodies ctx)\<rparr>)"

fun TypeNode_codeGen :: "nat \<Rightarrow> ClassNode list \<Rightarrow> TypeNode \<Rightarrow> llvm_type codegen"
  and members_codeGen :: "nat \<Rightarrow> ClassNode list \<Rightarrow> (string \<times> TypeNode option) list \<Rightarrow> (llvm_type list) codegen" where
  "TypeNode_codeGen fuel classes (PrimitiveTypeNode t s) = return (PrimitiveTypeNode_codeGen t)"
| "TypeNode_codeGen fuel classes (PointerTypeNode target) =
     bind (TypeNode_codeGen fuel classes target) (\<lambda>targetType. return PointerTy)"
| "TypeNode_codeGen fuel classes (ArrayTypeNode target n) =
     bind (TypeNode_codeGen fuel classes target) (\<lambda>targetType. return (ArrayTy targetType n))"
| "TypeNode_codeGen 0 classes (ClassReferenceNode decl) = fail OutOfFuel"
| "TypeNode_codeGen (Suc fuel) classes (ClassReferenceNode decl) =
     (\<lambda>ctx. case map_find (namedStructs ctx) (cname' (classes ! decl)) of
        Some (llvmStruct, names) \<Rightarrow> return llvmStruct ctx
      | None \<Rightarrow>
          bind (declareStruct (cname' (classes ! decl)) (StructTy (cname' (classes ! decl)))
                  (map fst (members' (classes ! decl))))
            (\<lambda>_. bind (members_codeGen fuel classes (members' (classes ! decl)))
               (\<lambda>llvmMembers. bind (setBody (cname' (classes ! decl)) llvmMembers)
                  (\<lambda>_. return (StructTy (cname' (classes ! decl)))))) ctx)"
| "members_codeGen fuel classes [] = return []"
| "members_codeGen fuel classes ((nm, None) # ms) =
     fail (UndefinedBehaviour ''null member type'')"
| "members_codeGen fuel classes ((nm, Some t) # ms) =
     bind (TypeNode_codeGen fuel classes t)
       (\<lambda>ty. bind (members_codeGen fuel classes ms) (\<lambda>tys. return (ty # tys)))"

definition ClassNode_codeGen :: "nat \<Rightarrow> ClassNode list \<Rightarrow> nat \<Rightarrow> llvm_type codegen" where
  "ClassNode_codeGen fuel classes decl = TypeNode_codeGen fuel classes (ClassReferenceNode decl)"


subsection \<open>Lowering of expressions\<close>








subsection \<open>Lowering of statements\<close>




subsection \<open>Lowering of functions\<close>








subsection \<open>What lowering does to the basic blocks\<close>


text \<open>
  \<open>plain ctx ctx'\<close>: from \<open>ctx\<close> to \<open>ctx'\<close> the insertion block is the same, no block was
  created, and the only change to the blocks is that instructions which are not
  terminators were appended to the insertion block.  Types and expressions are lowered
  in this way.
\<close>

definition plain :: "CodegenContext \<Rightarrow> CodegenContext \<Rightarrow> bool" where
  "plain ctx ctx' \<longleftrightarrow>
     insertBlock ctx' = insertBlock ctx \<and>
     length (module_blocks ctx') = length (module_blocks ctx) \<and>
     (\<forall>b. b \<noteq> insertBlock ctx \<longrightarrow> module_blocks ctx' ! b = module_blocks ctx ! b) \<and>
     parent (module_blocks ctx' ! insertBlock ctx) = parent (module_blocks ctx ! insertBlock ctx) \<and>
     (\<exists>new. instructions (module_blocks ctx' ! insertBlock ctx)
               = instructions (module_blocks ctx ! insertBlock ctx) @ new \<and>
            (\<forall>i \<in> set new. \<not> isTerminator i))"

definition keeps_plain :: "'a codegen \<Rightarrow> bool" where
  "keeps_plain m \<longleftrightarrow> (\<forall>ctx a ctx'. m ctx = Inr (a, ctx') \<longrightarrow> plain ctx ctx')"









lemma keeps_plain_if:
  "(c \<Longrightarrow> keeps_plain m) \<Longrightarrow> (\<not> c \<Longrightarrow> keeps_plain m') \<Longrightarrow> keeps_plain (if c then m else m')"
  by simp















































subsection \<open>Examples\<close>







section \<open>The claims\<close>

text \<open>
  C7.  Let \<open>s\<close> be the state \<open>saveState()\<close> returns on a lexer \<open>L\<close>, and let the lexer then
  be used for any sequence \<open>between\<close> of \<open>peek\<close> and \<open>consume\<close> calls.  After
  \<open>restoreState(s)\<close>, every sequence \<open>cs\<close> of \<open>peek\<close> and \<open>consume\<close> calls, of any length
  \<open>k\<close>, returns the same tokens (type, text, row and column) as it returns immediately
  after \<open>saveState()\<close>, or ends the process in the same way.
\<close>

theorem restoreState_replays_tokens:
  assumes "observe L between = Inr (seen, L1)"
  shows "observe (restoreState (saveState L) L1) cs = observe L cs"
  using observe_src [OF assms] by (simp add: restoreState_saveState)


theorem restoreState_replays_tokens_witness:
  "observe (Lexer_new ''a b c'') [Consume, Peek 1] =
     Inr ([\<lparr>type = TokIdentifier, src = ''a'', row = 1, col = 1\<rparr>,
           \<lparr>type = TokIdentifier, src = ''c'', row = 1, col = 5\<rparr>],
          \<lparr>src' = ''a b c'', srcCursor' = 5,
           lookAhead' = [\<lparr>type = TokIdentifier, src = ''b'', row = 1, col = 3\<rparr>,
                         \<lparr>type = TokIdentifier, src = ''c'', row = 1, col = 5\<rparr>],
           tokensCursor' = 0, row' = 1, col' = 6\<rparr>) \<and>
   observe (restoreState (saveState (Lexer_new ''a b c''))
              \<lparr>src' = ''a b c'', srcCursor' = 5,
               lookAhead' = [\<lparr>type = TokIdentifier, src = ''b'', row = 1, col = 3\<rparr>,
                             \<lparr>type = TokIdentifier, src = ''c'', row = 1, col = 5\<rparr>],
               tokensCursor' = 0, row' = 1, col' = 6\<rparr>) [Consume, Consume]
     = Inr ([\<lparr>type = TokIdentifier, src = ''a'', row = 1, col = 1\<rparr>,
             \<lparr>type = TokIdentifier, src = ''b'', row = 1, col = 3\<rparr>],
            \<lparr>src' = ''a b c'', srcCursor' = 3, lookAhead' = [],
             tokensCursor' = 0, row' = 1, col' = 4\<rparr>)"
proof -
  have h: "observe (Lexer_new ''a b c'') [Consume, Peek 1] =
     Inr ([\<lparr>type = TokIdentifier, src = ''a'', row = 1, col = 1\<rparr>,
           \<lparr>type = TokIdentifier, src = ''c'', row = 1, col = 5\<rparr>],
          \<lparr>src' = ''a b c'', srcCursor' = 5,
           lookAhead' = [\<lparr>type = TokIdentifier, src = ''b'', row = 1, col = 3\<rparr>,
                         \<lparr>type = TokIdentifier, src = ''c'', row = 1, col = 5\<rparr>],
           tokensCursor' = 0, row' = 1, col' = 6\<rparr>)"
    by code_simp
  have r: "observe (Lexer_new ''a b c'') [Consume, Consume]
     = Inr ([\<lparr>type = TokIdentifier, src = ''a'', row = 1, col = 1\<rparr>,
             \<lparr>type = TokIdentifier, src = ''b'', row = 1, col = 3\<rparr>],
            \<lparr>src' = ''a b c'', srcCursor' = 3, lookAhead' = [],
             tokensCursor' = 0, row' = 1, col' = 4\<rparr>)"
    by code_simp
  show ?thesis
    using restoreState_replays_tokens [OF h, of "[Consume, Consume]"] h r by simp
qed

text \<open>
  C9.  \<open>nextToken\<close> does not return on every source text.  On the one-character source
  \<open>1\<close> the digit loop stops at the end of the text, and the look for a decimal point,
  \<open>peekChar() == '.'\<close>, reads \<open>src_.at(1)\<close>: \<open>std::out_of_range\<close> is thrown and no token
  is returned.
\<close>

theorem nextToken_digit_at_end_throws: "nextToken (Lexer_new ''1'') = Inl OutOfRange"
  by code_simp

text \<open>
  C4.  A hexadecimal array length does not reach \<open>parseType\<close> as one token.  The lexer
  reads digits with \<open>std::isdigit\<close> only, so \<open>0x10\<close> becomes the integer literal \<open>0\<close>
  followed by the identifier \<open>x10\<close>; \<open>parseType\<close> reads the length \<open>0\<close> in base 10 and
  then fails at \<open>expect(RBracket)\<close>.  On the source \<open>int[0x10] a;\<close> the result is the fatal
  syntax error "Expected token: ']'", not an array of length 16.
\<close>

theorem parseType_hex_length_rejected:
  "parseType (Parser_new ''int[0x10] a;'' []) =
     Inl (Reported Syntax (''Expected token: '' @ quoted '']''))"
  by code_simp

text \<open>
  C5.  A \<open>typedef\<close> whose target is a class type is rejected.  On the source
  \<open>class C { int a; } typedef D C;\<close> the class \<open>C\<close> is registered, and \<open>insertTypeDef\<close>
  then ends the process with "Invalid target type in typedef": the descriptor bound to
  \<open>C\<close> is a \<open>ClassReferenceNode\<close>, which is neither a \<open>PrimitiveTypeNode\<close> nor a
  \<open>ClassNode\<close>.
\<close>

theorem typedef_of_class_rejected:
  "parseFile 3 noStatements (Parser_new ''class C { int a; } typedef D C;'' []) =
     Inl (Reported Syntax ''Invalid target type in typedef'')"
  by code_simp

text \<open>
  C6.  The alias of a \<open>typedef\<close> is not passed to \<open>validateIdentifier\<close>.  The source
  \<open>typedef my_int int;\<close> is parsed without a diagnostic and binds the name \<open>my_int\<close>,
  which contains an underscore, to the descriptor of \<open>int\<close>.
\<close>

theorem typedef_alias_with_underscore_accepted:
  "\<exists>P. parseFile 2 noStatements (Parser_new ''typedef my_int int;'' []) = Inr P \<and>
       getTypeNode P ''my_int'' = Some (PrimitiveTypeNode PrimInt True)"
proof -
  have "(case parseFile 2 noStatements (Parser_new ''typedef my_int int;'' []) of
           Inl e \<Rightarrow> False
         | Inr P \<Rightarrow> getTypeNode P ''my_int'' = Some (PrimitiveTypeNode PrimInt True))"
    by code_simp
  then show ?thesis by (auto split: sum.splits)
qed






end
